theory Spec2Isabelle
  imports Complex_Main "HOL-Library.Word"
begin

section \<open>JavaScript numbers\<close>

text \<open>
  The program computes with JavaScript numbers. They are modelled as real numbers
  extended by one non-number: \<open>None\<close> is NaN, \<open>Some x\<close> is the number \<open>x\<close>.
  Arithmetic is exact: rounding to 64-bit (and, in a Float32Array, 32-bit) floating
  point is outside the model. Every operation propagates NaN, as in JavaScript.
  Division by zero is the one place where numbers leave the reals: \<open>0 / 0\<close> is NaN.
  The program divides by a value that can be zero in two places only, a loop counter by
  a segment count and a vector component by the vector's own length; in both a zero
  divisor comes with a zero dividend, so the quotient \<open>x / 0\<close> with \<open>x \<noteq> 0\<close>
  (an infinity in JavaScript) is never computed from numbers, and the model gives it the
  non-number as well. The parameters of a model are numbers too; the segment counts are
  integers.
\<close>

type_synonym num = "real option"

fun nadd :: "num \<Rightarrow> num \<Rightarrow> num" where
  "nadd (Some x) (Some y) = Some (x + y)"
| "nadd _ _ = None"

fun nsub :: "num \<Rightarrow> num \<Rightarrow> num" where
  "nsub (Some x) (Some y) = Some (x - y)"
| "nsub _ _ = None"

fun nmul :: "num \<Rightarrow> num \<Rightarrow> num" where
  "nmul (Some x) (Some y) = Some (x * y)"
| "nmul _ _ = None"

fun ndiv :: "num \<Rightarrow> num \<Rightarrow> num" where
  "ndiv (Some x) (Some y) = (if y = 0 then None else Some (x / y))"
| "ndiv _ _ = None"

fun nsqrt :: "num \<Rightarrow> num" where
  "nsqrt (Some x) = (if x < 0 then None else Some (sqrt x))"
| "nsqrt None = None"

fun ncos :: "num \<Rightarrow> num" where
  "ncos (Some x) = Some (cos x)"
| "ncos None = None"

fun nsin :: "num \<Rightarrow> num" where
  "nsin (Some x) = Some (sin x)"
| "nsin None = None"

text \<open>A loop counter or an integer field read as a number.\<close>

definition ofNat :: "nat \<Rightarrow> num" where
  "ofNat k = Some (real k)"

definition ofInt :: "int \<Rightarrow> num" where
  "ofInt k = Some (real_of_int k)"

section \<open>The triangulated model (model.js)\<close>

text \<open>
  The methods of class \<open>Model\<close> read the fields \<open>radius\<close>, \<open>a\<close>, \<open>n\<close>,
  \<open>segmentsCountU\<close> and \<open>segmentsCountV\<close>; the functions below take them as arguments.
  The segment counts come from \<open>parseInt\<close> and are integers of either sign. A loop
  \<open>for (let i = 0; i <= m; i++)\<close> runs for \<open>i = 0, ..., m\<close>, that is over
  \<open>[0..<nat (m + 1)]\<close>, and not at all when \<open>m < 0\<close>; \<open>push\<close> appends.
\<close>

definition getIndices :: "int \<Rightarrow> int \<Rightarrow> int list" where
  "getIndices segmentsCountU segmentsCountV =
     fold (\<lambda>i indices.
       fold (\<lambda>j indices.
         let point = int i * (segmentsCountV + 1) + int j;
             pointInNextRow = point + (segmentsCountV + 1)
         in (indices @ [point, pointInNextRow, point + 1])
              @ [point + 1, pointInNextRow, pointInNextRow + 1])
         [0..<nat segmentsCountV] indices)
       [0..<nat segmentsCountU] []"

text \<open>The six indices that the cell \<open>(i, j)\<close> contributes, in the order of the two pushes.\<close>

definition cellIndices :: "int \<Rightarrow> nat \<Rightarrow> nat \<Rightarrow> int list" where
  "cellIndices segmentsCountV i j =
     (let p = int i * (segmentsCountV + 1) + int j;
          q = p + (segmentsCountV + 1)
      in [p, q, p + 1, p + 1, q, q + 1])"

definition getVertices :: "num \<Rightarrow> num \<Rightarrow> num \<Rightarrow> int \<Rightarrow> int \<Rightarrow> num list" where
  "getVertices radius a n segmentsCountU segmentsCountV =
     fold (\<lambda>i vertices.
       let phi = nmul (nmul (ndiv (ofNat i) (ofInt segmentsCountU)) (Some 2)) (Some pi)
       in fold (\<lambda>j vertices.
            let v = nmul (ndiv (ofNat j) (ofInt segmentsCountV)) (Some pi);
                cosV = ncos v;
                sinV = nsin v;
                similarPart = nadd (nmul radius cosV)
                                (nmul (nmul a (nsub (Some 1) sinV)) (ncos (nmul n phi)));
                x = nmul similarPart (ncos phi);
                y = nmul similarPart (nsin phi);
                z = nmul radius sinV
            in vertices @ [x, y, z])
            [0..<nat (segmentsCountV + 1)] vertices)
       [0..<nat (segmentsCountU + 1)] []"

definition getNormals :: "int \<Rightarrow> int \<Rightarrow> num list" where
  "getNormals segmentsCountU segmentsCountV =
     fold (\<lambda>i normals.
       let phi = nmul (nmul (ndiv (ofNat i) (ofInt segmentsCountU)) (Some 2)) (Some pi)
       in fold (\<lambda>j normals.
            let v = nmul (ndiv (ofNat j) (ofInt segmentsCountV)) (Some pi);
                nx = nmul (ncos v) (ncos phi);
                ny = nmul (ncos v) (nsin phi);
                nz = nsin v
            in normals @ [nx, ny, nz])
            [0..<nat (segmentsCountV + 1)] normals)
       [0..<nat (segmentsCountU + 1)] []"

text \<open>
  The values pushed for the grid position \<open>(i, j)\<close>: the body of the inner loop of
  getVertices, respectively of getNormals.
\<close>

definition vertexAt :: "num \<Rightarrow> num \<Rightarrow> num \<Rightarrow> int \<Rightarrow> int \<Rightarrow> nat \<Rightarrow> nat \<Rightarrow> num list" where
  "vertexAt radius a n segmentsCountU segmentsCountV i j =
     (let phi = nmul (nmul (ndiv (ofNat i) (ofInt segmentsCountU)) (Some 2)) (Some pi);
          v = nmul (ndiv (ofNat j) (ofInt segmentsCountV)) (Some pi);
          cosV = ncos v;
          sinV = nsin v;
          similarPart = nadd (nmul radius cosV)
                          (nmul (nmul a (nsub (Some 1) sinV)) (ncos (nmul n phi)));
          x = nmul similarPart (ncos phi);
          y = nmul similarPart (nsin phi);
          z = nmul radius sinV
      in [x, y, z])"

definition normalAt :: "int \<Rightarrow> int \<Rightarrow> nat \<Rightarrow> nat \<Rightarrow> num list" where
  "normalAt segmentsCountU segmentsCountV i j =
     (let phi = nmul (nmul (ndiv (ofNat i) (ofInt segmentsCountU)) (Some 2)) (Some pi);
          v = nmul (ndiv (ofNat j) (ofInt segmentsCountV)) (Some pi);
          nx = nmul (ncos v) (ncos phi);
          ny = nmul (ncos v) (nsin phi);
          nz = nsin v
      in [nx, ny, nz])"

text \<open>
  The surface function in the words of the specification, over the reals: the position
  at the angles \<open>phi\<close> and \<open>v\<close>, and the analytic normal used by the system.
\<close>

definition spec_position :: "real \<Rightarrow> real \<Rightarrow> real \<Rightarrow> real \<Rightarrow> real \<Rightarrow> real list" where
  "spec_position radius amplitude waveCount phi v =
     (let s = radius * cos v + amplitude * (1 - sin v) * cos (waveCount * phi)
      in [s * cos phi, s * sin phi, radius * sin v])"

definition spec_analyticNormal :: "real \<Rightarrow> real \<Rightarrow> real list" where
  "spec_analyticNormal phi v = [cos v * cos phi, cos v * sin phi, sin v]"

text \<open>The sample angles of the specification.\<close>

definition spec_phi :: "int \<Rightarrow> nat \<Rightarrow> real" where
  "spec_phi segmentsU i = (real i / real_of_int segmentsU) * 2 * pi"

definition spec_v :: "int \<Rightarrow> nat \<Rightarrow> real" where
  "spec_v segmentsV j = (real j / real_of_int segmentsV) * pi"

subsection \<open>Face-weighted normals\<close>

text \<open>
  Reads and writes of the arrays. Reading a plain array outside its bounds gives
  \<open>undefined\<close>, which every arithmetic operation turns into NaN; an index computed from
  \<open>undefined\<close> is NaN itself and is no position of any array. An index is therefore an
  \<open>int option\<close>. Writing a Float32Array outside its bounds does nothing.
\<close>

definition readIndex :: "int list \<Rightarrow> nat \<Rightarrow> int option" where
  "readIndex indices i = (if i < length indices then Some (indices ! i) else None)"

definition readNum :: "num list \<Rightarrow> int option \<Rightarrow> num" where
  "readNum xs k =
     (case k of
        None \<Rightarrow> None
      | Some i \<Rightarrow> if 0 \<le> i \<and> nat i < length xs then xs ! nat i else None)"

definition addAt :: "num list \<Rightarrow> int option \<Rightarrow> num \<Rightarrow> num list" where
  "addAt normals k x =
     (case k of
        None \<Rightarrow> normals
      | Some i \<Rightarrow> if 0 \<le> i \<and> nat i < length normals
                  then normals[nat i := nadd (normals ! nat i) x] else normals)"

definition divAt :: "num list \<Rightarrow> nat \<Rightarrow> num \<Rightarrow> num list" where
  "divAt normals i x =
     (if i < length normals then normals[i := ndiv (normals ! i) x] else normals)"

definition times3 :: "int option \<Rightarrow> int option" where
  "times3 k = map_option (\<lambda>i. i * 3) k"

definition indexPlus :: "int option \<Rightarrow> int \<Rightarrow> int option" where
  "indexPlus k d = map_option (\<lambda>i. i + d) k"

text \<open>The body of the first loop of getFacetWeightedNormals, at the loop counter \<open>i\<close>.\<close>

definition accumulateFacet :: "num list \<Rightarrow> int list \<Rightarrow> nat \<Rightarrow> num list \<Rightarrow> num list" where
  "accumulateFacet vertices indices i normals =
     (let firstIndex = times3 (readIndex indices i);
          secondIndex = times3 (readIndex indices (i + 1));
          thirdIndex = times3 (readIndex indices (i + 2));
          firstVertex0 = readNum vertices firstIndex;
          firstVertex1 = readNum vertices (indexPlus firstIndex 1);
          firstVertex2 = readNum vertices (indexPlus firstIndex 2);
          secondVertex0 = readNum vertices secondIndex;
          secondVertex1 = readNum vertices (indexPlus secondIndex 1);
          secondVertex2 = readNum vertices (indexPlus secondIndex 2);
          thirdVertex0 = readNum vertices thirdIndex;
          thirdVertex1 = readNum vertices (indexPlus thirdIndex 1);
          thirdVertex2 = readNum vertices (indexPlus thirdIndex 2);
          firstEdge0 = nsub secondVertex0 firstVertex0;
          firstEdge1 = nsub secondVertex1 firstVertex1;
          firstEdge2 = nsub secondVertex2 firstVertex2;
          secondEdge0 = nsub thirdVertex0 firstVertex0;
          secondEdge1 = nsub thirdVertex1 firstVertex1;
          secondEdge2 = nsub thirdVertex2 firstVertex2;
          normal0 = nsub (nmul firstEdge1 secondEdge2) (nmul firstEdge2 secondEdge1);
          normal1 = nsub (nmul firstEdge2 secondEdge0) (nmul firstEdge0 secondEdge2);
          normal2 = nsub (nmul firstEdge0 secondEdge1) (nmul firstEdge1 secondEdge0);
          normalLength = nsqrt (nadd (nadd (nmul normal0 normal0) (nmul normal1 normal1))
                                  (nmul normal2 normal2));
          normals = addAt normals firstIndex (nmul normal0 normalLength);
          normals = addAt normals (indexPlus firstIndex 1) (nmul normal1 normalLength);
          normals = addAt normals (indexPlus firstIndex 2) (nmul normal2 normalLength);
          normals = addAt normals secondIndex (nmul normal0 normalLength);
          normals = addAt normals (indexPlus secondIndex 1) (nmul normal1 normalLength);
          normals = addAt normals (indexPlus secondIndex 2) (nmul normal2 normalLength);
          normals = addAt normals thirdIndex (nmul normal0 normalLength);
          normals = addAt normals (indexPlus thirdIndex 1) (nmul normal1 normalLength);
          normals = addAt normals (indexPlus thirdIndex 2) (nmul normal2 normalLength)
      in normals)"

text \<open>The first loop: \<open>for (let i = 0; i < indices.length; i += 3)\<close>, entered at \<open>i\<close>.\<close>

function accumulateFacets :: "num list \<Rightarrow> int list \<Rightarrow> nat \<Rightarrow> num list \<Rightarrow> num list" where
  "accumulateFacets vertices indices i normals =
     (if i < length indices
      then accumulateFacets vertices indices (i + 3) (accumulateFacet vertices indices i normals)
      else normals)"
  by pat_completeness auto
termination
  by (relation "measure (\<lambda>(vertices, indices, i, normals). length indices - i)") auto

text \<open>The body of the second loop, at the loop counter \<open>i\<close>.\<close>

definition normalizeAt :: "nat \<Rightarrow> num list \<Rightarrow> num list" where
  "normalizeAt i normals =
     (let nx = readNum normals (Some (int i));
          ny = readNum normals (Some (int i + 1));
          nz = readNum normals (Some (int i + 2));
          nLength = nsqrt (nadd (nadd (nmul nx nx) (nmul ny ny)) (nmul nz nz));
          normals = divAt normals i nLength;
          normals = divAt normals (i + 1) nLength;
          normals = divAt normals (i + 2) nLength
      in normals)"

text \<open>The second loop: \<open>for (let i = 0; i < normals.length; i += 3)\<close>, entered at \<open>i\<close>.\<close>

function normalizeAll :: "nat \<Rightarrow> num list \<Rightarrow> num list" where
  "normalizeAll i normals =
     (if i < length normals then normalizeAll (i + 3) (normalizeAt i normals) else normals)"
  by pat_completeness auto
termination
proof (relation "measure (\<lambda>(i, normals). length normals - i)")
  show "wf (measure (\<lambda>(i, normals). length normals - i))" by simp
next
  fix i :: nat and normals :: "num list"
  assume "i < length normals"
  moreover have "length (normalizeAt i normals) = length normals"
    by (simp add: normalizeAt_def divAt_def Let_def)
  ultimately show "((i + 3, normalizeAt i normals), (i, normals))
      \<in> measure (\<lambda>(i, normals). length normals - i)"
    by simp
qed

text \<open>
  \<open>new Float32Array(vertices.length)\<close> is an array of zeros; the accumulated sums
  (the array between the two loops) are named for the claims that speak of them. The
  array stores single-precision numbers: in the program every \<open>+=\<close> rounds the sum, a
  sum beyond the single-precision range becomes an infinity and a sum below it zero. The
  model adds exactly, so its accumulators are the exact sums.
\<close>

definition accumulated :: "num list \<Rightarrow> int list \<Rightarrow> num list" where
  "accumulated vertices indices =
     accumulateFacets vertices indices 0 (replicate (length vertices) (Some 0))"

definition getFacetWeightedNormals :: "num list \<Rightarrow> int list \<Rightarrow> num list" where
  "getFacetWeightedNormals vertices indices = normalizeAll 0 (accumulated vertices indices)"

subsection \<open>Buffers\<close>

text \<open>
  \<open>new Uint16Array(indices)\<close> stores every index modulo \<open>2 ^ 16\<close>.
  \<open>new Float32Array(xs)\<close> rounds every number to single precision; in exact
  arithmetic it copies the list.
\<close>

definition Uint16Array :: "int list \<Rightarrow> 16 word list" where
  "Uint16Array indices = map word_of_int indices"

definition Float32Array :: "num list \<Rightarrow> num list" where
  "Float32Array xs = xs"

record Buffers =
  vertexBuffer :: "num list"
  indexBuffer :: "16 word list"
  normalBuffer :: "num list"

text \<open>
  The constructor of \<open>Model\<close> stores its arguments and calls bufferData; neither raises.
  The result type has an error branch all the same, so that a rejection could be told
  from a result.
\<close>

datatype error = InvalidParameter

definition bufferData :: "num \<Rightarrow> num \<Rightarrow> num \<Rightarrow> int \<Rightarrow> int \<Rightarrow> Buffers" where
  "bufferData radius a n segmentsCountU segmentsCountV =
     (let vertices = getVertices radius a n segmentsCountU segmentsCountV;
          indices = getIndices segmentsCountU segmentsCountV;
          normals = getFacetWeightedNormals vertices indices
      in \<lparr> vertexBuffer = Float32Array vertices,
           indexBuffer = Uint16Array indices,
           normalBuffer = Float32Array normals \<rparr>)"

definition Model :: "num \<Rightarrow> num \<Rightarrow> num \<Rightarrow> int \<Rightarrow> int \<Rightarrow> error + Buffers" where
  "Model radius corrugation waveCount segmentsCountByU segmentsCountByV =
     Inr (bufferData radius corrugation waveCount segmentsCountByU segmentsCountByV)"

text \<open>The variant of the model with analytic normals: bufferData uploads getNormals.\<close>

definition bufferData_analytic :: "num \<Rightarrow> num \<Rightarrow> num \<Rightarrow> int \<Rightarrow> int \<Rightarrow> Buffers" where
  "bufferData_analytic radius a n segmentsCountU segmentsCountV =
     (let vertices = getVertices radius a n segmentsCountU segmentsCountV;
          normals = getNormals segmentsCountU segmentsCountV;
          indices = getIndices segmentsCountU segmentsCountV
      in \<lparr> vertexBuffer = Float32Array vertices,
           indexBuffer = Uint16Array indices,
           normalBuffer = Float32Array normals \<rparr>)"

section \<open>The wireframe model\<close>

definition createUVertices :: "num \<Rightarrow> num \<Rightarrow> num \<Rightarrow> int \<Rightarrow> int \<Rightarrow> num list" where
  "createUVertices radius corrugation n segmentsU segmentsV =
     (let R = radius; a = corrugation
      in fold (\<lambda>i vertices.
           let phi = nmul (nmul (ndiv (ofNat i) (ofInt segmentsU)) (Some 2)) (Some pi)
           in fold (\<lambda>j vertices.
                let v = nmul (ndiv (ofNat j) (ofInt segmentsV)) (Some pi);
                    cosV = ncos v;
                    sinV = nsin v;
                    similarPart = nadd (nmul R cosV)
                                    (nmul (nmul a (nsub (Some 1) sinV)) (ncos (nmul n phi)));
                    x = nmul similarPart (ncos phi);
                    y = nmul similarPart (nsin phi);
                    z = nmul R sinV
                in vertices @ [x, y, z])
                [0..<nat (segmentsV + 1)] vertices)
           [0..<nat (segmentsU + 1)] [])"

definition createVVertices :: "num \<Rightarrow> num \<Rightarrow> num \<Rightarrow> int \<Rightarrow> int \<Rightarrow> num list" where
  "createVVertices radius corrugation n segmentsU segmentsV =
     (let R = radius; a = corrugation
      in fold (\<lambda>j vertices.
           let v = nmul (ndiv (ofNat j) (ofInt segmentsV)) (Some pi)
           in fold (\<lambda>i vertices.
                let phi = nmul (nmul (ndiv (ofNat i) (ofInt segmentsU)) (Some 2)) (Some pi);
                    cosV = ncos v;
                    sinV = nsin v;
                    cosNPhi = ncos (nmul n phi);
                    similarPart = nadd (nmul R cosV) (nmul (nmul a (nsub (Some 1) sinV)) cosNPhi);
                    x = nmul similarPart (ncos phi);
                    y = nmul similarPart (nsin phi);
                    z = nmul R sinV
                in vertices @ [x, y, z])
                [0..<nat (segmentsU + 1)] vertices)
           [0..<nat (segmentsV + 1)] [])"

text \<open>
  The fields that bufferData of the wireframe model sets: the contents of the two
  buffers and the two vertex counts, \<open>length / 3\<close>.
\<close>

record CurveBuffers =
  uVertexBuffer :: "num list"
  uVertexCount :: num
  vVertexBuffer :: "num list"
  vVertexCount :: num

definition bufferData_curves :: "num \<Rightarrow> num \<Rightarrow> num \<Rightarrow> int \<Rightarrow> int \<Rightarrow> CurveBuffers" where
  "bufferData_curves radius corrugation n segmentsU segmentsV =
     (let uVertices = createUVertices radius corrugation n segmentsU segmentsV;
          vVertices = createVVertices radius corrugation n segmentsU segmentsV
      in \<lparr> uVertexBuffer = Float32Array uVertices,
           uVertexCount = ndiv (ofNat (length uVertices)) (Some 3),
           vVertexBuffer = Float32Array vVertices,
           vVertexCount = ndiv (ofNat (length vVertices)) (Some 3) \<rparr>)"

text \<open>
  The calls that draw makes on the rendering context, in order. Only the calls that
  decide which vertices are drawn are kept: binding a buffer, and
  \<open>drawArrays(LINE_STRIP, first, count)\<close>.
\<close>

datatype bufferName = UVertexBuffer | VVertexBuffer

datatype glCall = BindBuffer bufferName | DrawArraysLineStrip int int

definition draw_curves :: "int \<Rightarrow> int \<Rightarrow> glCall list" where
  "draw_curves segmentsU segmentsV =
     (let calls = [BindBuffer UVertexBuffer];
          calls = fold (\<lambda>i calls.
                    calls @ [DrawArraysLineStrip (int i * (segmentsV + 1)) (segmentsV + 1)])
                    [0..<nat segmentsU] calls;
          calls = calls @ [BindBuffer VVertexBuffer];
          calls = fold (\<lambda>i calls.
                    calls @ [DrawArraysLineStrip (int i * (segmentsU + 1)) (segmentsU + 1)])
                    [0..<nat segmentsV] calls
      in calls)"

text \<open>
  The wireframe constructor \<open>Model(name, radius, corrugation, waveCount, linesCount)\<close>
  uses \<open>linesCount\<close> for both segment counts; updateModel then calls bufferData and draw.
\<close>

definition updateModel_curves :: "num \<Rightarrow> num \<Rightarrow> num \<Rightarrow> int \<Rightarrow> CurveBuffers \<times> glCall list" where
  "updateModel_curves radius amplitude wavesCount linesCount =
     (bufferData_curves radius amplitude wavesCount linesCount linesCount,
      draw_curves linesCount linesCount)"

section \<open>The face-weighted strategy in the words of the specification\<close>

text \<open>
  The specification describes the face-weighted normals on vectors and triangles: an
  accumulator per vertex, initially zero; for every triangle the cross product of its
  two edge vectors, scaled by its own length, added to the accumulators of the
  triangle's three vertices; at the end every accumulated vector divided by its own
  length. The definitions of this section follow these words. They are compared with
  getFacetWeightedNormals, which works on the flat arrays.
\<close>

datatype vec3 = Vec3 (vx: real) (vy: real) (vz: real)

definition spec_sub :: "vec3 \<Rightarrow> vec3 \<Rightarrow> vec3" where
  "spec_sub p q = Vec3 (vx p - vx q) (vy p - vy q) (vz p - vz q)"

definition spec_add :: "vec3 \<Rightarrow> vec3 \<Rightarrow> vec3" where
  "spec_add p q = Vec3 (vx p + vx q) (vy p + vy q) (vz p + vz q)"

definition spec_cross :: "vec3 \<Rightarrow> vec3 \<Rightarrow> vec3" where
  "spec_cross e f = Vec3 (vy e * vz f - vz e * vy f)
                         (vz e * vx f - vx e * vz f)
                         (vx e * vy f - vy e * vx f)"

definition spec_length :: "vec3 \<Rightarrow> real" where
  "spec_length p = sqrt (vx p * vx p + vy p * vy p + vz p * vz p)"

definition spec_scale :: "vec3 \<Rightarrow> real \<Rightarrow> vec3" where
  "spec_scale p c = Vec3 (vx p * c) (vy p * c) (vz p * c)"

text \<open>The contribution of the triangle with the corners \<open>p\<close>, \<open>q\<close>, \<open>r\<close>: cross * |cross|.\<close>

definition spec_contribution :: "vec3 \<Rightarrow> vec3 \<Rightarrow> vec3 \<Rightarrow> vec3" where
  "spec_contribution p q r =
     (let cross = spec_cross (spec_sub q p) (spec_sub r p)
      in spec_scale cross (spec_length cross))"

fun spec_addFacet :: "vec3 list \<Rightarrow> nat \<times> nat \<times> nat \<Rightarrow> vec3 list \<Rightarrow> vec3 list" where
  "spec_addFacet points (a, b, c) acc =
     (let w = spec_contribution (points ! a) (points ! b) (points ! c);
          acc = acc[a := spec_add (acc ! a) w];
          acc = acc[b := spec_add (acc ! b) w];
          acc = acc[c := spec_add (acc ! c) w]
      in acc)"

definition spec_accumulate :: "vec3 list \<Rightarrow> (nat \<times> nat \<times> nat) list \<Rightarrow> vec3 list" where
  "spec_accumulate points triangles =
     fold (spec_addFacet points) triangles (replicate (length points) (Vec3 0 0 0))"

text \<open>Dividing a vector by its own length; \<open>0 / 0\<close> is NaN.\<close>

definition spec_normalized :: "vec3 \<Rightarrow> num list" where
  "spec_normalized p =
     [ndiv (Some (vx p)) (Some (spec_length p)),
      ndiv (Some (vy p)) (Some (spec_length p)),
      ndiv (Some (vz p)) (Some (spec_length p))]"

definition spec_faceWeightedNormals :: "vec3 list \<Rightarrow> (nat \<times> nat \<times> nat) list \<Rightarrow> num list" where
  "spec_faceWeightedNormals points triangles =
     concat (map spec_normalized (spec_accumulate points triangles))"

text \<open>
  The flat arrays and the vectors: three numbers per vertex, and every three
  consecutive indices a triangle.
\<close>

fun flatten :: "vec3 list \<Rightarrow> num list" where
  "flatten [] = []"
| "flatten (p # ps) = Some (vx p) # Some (vy p) # Some (vz p) # flatten ps"

fun unflatten :: "num list \<Rightarrow> vec3 list" where
  "unflatten (Some x # Some y # Some z # rest) = Vec3 x y z # unflatten rest"
| "unflatten _ = []"

fun triangles :: "int list \<Rightarrow> (nat \<times> nat \<times> nat) list" where
  "triangles (a # b # c # rest) = (nat a, nat b, nat c) # triangles rest"
| "triangles _ = []"

section \<open>The normal array as a Float32Array\<close>

text \<open>
  The second loop of getFacetWeightedNormals block by block: every iteration reads and
  writes only its own three positions. A last block of fewer than three positions reads
  \<open>undefined\<close> beyond the array, so its length is NaN.
\<close>

fun normalizeBlocks :: "num list \<Rightarrow> num list" where
  "normalizeBlocks (nx # ny # nz # rest) =
     (let nLength = nsqrt (nadd (nadd (nmul nx nx) (nmul ny ny)) (nmul nz nz))
      in ndiv nx nLength # ndiv ny nLength # ndiv nz nLength # normalizeBlocks rest)"
| "normalizeBlocks [nx, ny] = [None, None]"
| "normalizeBlocks [nx] = [None]"
| "normalizeBlocks [] = []"

text \<open>
  The numbers that an element of a Float32Array can hold, by magnitude: zero, or a value
  between the least subnormal \<open>2 ^ -149\<close> and the greatest finite value
  \<open>(2 ^ 24 - 1) * 2 ^ 104\<close>. A sum beyond this range is stored as an infinity, a
  sum below it as zero; the exact arithmetic of the first loop does not show either, so
  a statement about unit length is made for the values that the array holds.
\<close>

definition float32 :: "real \<Rightarrow> bool" where
  "float32 x \<longleftrightarrow> x = 0 \<or> (1 / 2 ^ 149 \<le> \<bar>x\<bar> \<and> \<bar>x\<bar> \<le> (2 ^ 24 - 1) * 2 ^ 104)"

text \<open>
  The defining equations of the two loops are recursive without a pattern; they are
  unfolded one iteration at a time.
\<close>

declare accumulateFacets.simps [simp del]
declare normalizeAll.simps [simp del]

section \<open>Loops that push a fixed number of values\<close>

lemma fold_push: "fold (\<lambda>i acc. acc @ f i) xs acc = acc @ concat (map f xs)"
  by (induction xs arbitrary: acc) simp_all

lemma length_concat_uniform:
  "(\<And>i. i < n \<Longrightarrow> length (f i) = k) \<Longrightarrow> length (concat (map f [0..<n])) = n * k"
  by (induction n) simp_all

lemma block_concat_uniform:
  assumes len: "\<And>i. i < n \<Longrightarrow> length (f i) = k" and i: "i < n"
  shows "take k (drop (i * k) (concat (map f [0..<n]))) = f i"
  using assms
proof (induction n)
  case 0
  then show ?case by simp
next
  case (Suc n)
  have L: "length (concat (map f [0..<n])) = n * k"
    using Suc.prems(1) by (simp add: length_concat_uniform)
  show ?case
  proof (cases "i < n")
    case True
    then have "Suc i \<le> n" by simp
    then have "Suc i * k \<le> n * k" by (rule mult_le_mono1)
    then have "k \<le> n * k - i * k" by simp
    moreover have "i * k \<le> n * k" using True by simp
    ultimately show ?thesis
      using Suc.IH [OF Suc.prems(1)] True L by simp
  next
    case False
    with Suc.prems(2) have "i = n" by simp
    then show ?thesis using L Suc.prems(1) [of n] by simp
  qed
qed

lemma nth_concat_uniform:
  assumes len: "\<And>i. i < n \<Longrightarrow> length (f i) = k" and i: "i < n" and r: "r < k"
  shows "concat (map f [0..<n]) ! (i * k + r) = f i ! r"
proof -
  have "i * k + r < n * k"
  proof -
    have "Suc i * k \<le> n * k" using i by (intro mult_le_mono1) simp
    then show ?thesis using r by simp
  qed
  then have "i * k + r < length (concat (map f [0..<n]))"
    using len by (simp add: length_concat_uniform)
  then have "concat (map f [0..<n]) ! (i * k + r)
      = take k (drop (i * k) (concat (map f [0..<n]))) ! r"
    using r by simp
  then show ?thesis using block_concat_uniform [OF len i] by simp
qed

section \<open>The index list\<close>

lemma getIndices_concat:
  "getIndices su sv =
     concat (map (\<lambda>i. concat (map (\<lambda>j. cellIndices sv i j) [0..<nat sv])) [0..<nat su])"
proof -
  have inner: "\<And>i acc.
      fold (\<lambda>j indices.
         let point = int i * (sv + 1) + int j;
             pointInNextRow = point + (sv + 1)
         in (indices @ [point, pointInNextRow, point + 1])
              @ [point + 1, pointInNextRow, pointInNextRow + 1]) [0..<nat sv] acc
      = acc @ concat (map (\<lambda>j. cellIndices sv i j) [0..<nat sv])"
  proof -
    fix i acc
    have "(\<lambda>j indices.
         let point = int i * (sv + 1) + int j;
             pointInNextRow = point + (sv + 1)
         in (indices @ [point, pointInNextRow, point + 1])
              @ [point + 1, pointInNextRow, pointInNextRow + 1])
       = (\<lambda>j indices. indices @ cellIndices sv i j)"
      by (simp add: cellIndices_def Let_def fun_eq_iff)
    then show "fold (\<lambda>j indices.
         let point = int i * (sv + 1) + int j;
             pointInNextRow = point + (sv + 1)
         in (indices @ [point, pointInNextRow, point + 1])
              @ [point + 1, pointInNextRow, pointInNextRow + 1]) [0..<nat sv] acc
      = acc @ concat (map (\<lambda>j. cellIndices sv i j) [0..<nat sv])"
      by (simp only: fold_push)
  qed
  show ?thesis
    unfolding getIndices_def inner
    by (simp only: fold_push append_Nil)
qed

lemma length_cellIndices: "length (cellIndices sv i j) = 6"
  by (simp add: cellIndices_def Let_def)

lemma length_row: "length (concat (map (\<lambda>j. cellIndices sv i j) [0..<nat sv])) = nat sv * 6"
  by (rule length_concat_uniform) (rule length_cellIndices)

lemma length_getIndices: "length (getIndices su sv) = nat su * (nat sv * 6)"
  unfolding getIndices_concat
  by (rule length_concat_uniform) (rule length_row)

lemma block_getIndices:
  assumes "i < nat su" and "j < nat sv"
  shows "take 6 (drop (6 * (i * nat sv + j)) (getIndices su sv)) = cellIndices sv i j"
proof -
  let ?row = "\<lambda>i. concat (map (\<lambda>j. cellIndices sv i j) [0..<nat sv])"
  have row: "take (nat sv * 6) (drop (i * (nat sv * 6)) (getIndices su sv)) = ?row i"
    unfolding getIndices_concat
    by (rule block_concat_uniform) (simp_all add: length_row assms)
  have cell: "take 6 (drop (j * 6) (?row i)) = cellIndices sv i j"
    by (rule block_concat_uniform) (simp_all add: length_cellIndices assms)
  have "Suc j * 6 \<le> nat sv * 6" using assms(2) by (intro mult_le_mono1) simp
  then have le: "j * 6 + 6 \<le> nat sv * 6" by simp
  have "take 6 (drop (j * 6) (?row i))
      = take 6 (drop (j * 6) (take (nat sv * 6) (drop (i * (nat sv * 6)) (getIndices su sv))))"
    by (simp only: row)
  also have "\<dots> = take 6 (drop (j * 6 + i * (nat sv * 6)) (getIndices su sv))"
    using le by (simp add: drop_take min_def)
  also have "j * 6 + i * (nat sv * 6) = 6 * (i * nat sv + j)" by (simp add: algebra_simps)
  finally show ?thesis using cell by simp
qed

lemma set_getIndices:
  "x \<in> set (getIndices su sv) \<Longrightarrow> \<exists>i<nat su. \<exists>j<nat sv. x \<in> set (cellIndices sv i j)"
  unfolding getIndices_concat by auto blast

lemma cellIndices_bounds:
  assumes i: "i < nat su" and j: "j < nat sv" and x: "x \<in> set (cellIndices sv i j)"
  shows "0 \<le> x \<and> x < (su + 1) * (sv + 1)"
proof -
  have sv: "0 < sv" and su: "0 < su" using i j by simp_all
  have "int i \<le> su - 1" using i by simp
  then have "int i * (sv + 1) \<le> (su - 1) * (sv + 1)"
    using sv by (intro mult_right_mono) simp_all
  then have up: "int i * (sv + 1) + 2 * (sv + 1) \<le> (su + 1) * (sv + 1)"
    by (simp add: algebra_simps)
  have lo: "0 \<le> int i * (sv + 1)" using sv by simp
  have jj: "int j \<le> sv - 1" using j by simp
  define P where "P = int i * (sv + 1)"
  define T where "T = (su + 1) * (sv + 1)"
  from x consider "x = P + int j"
    | "x = P + int j + (sv + 1)"
    | "x = P + int j + 1"
    | "x = P + int j + (sv + 1) + 1"
    by (auto simp: cellIndices_def Let_def P_def)
  then have "0 \<le> x \<and> x < T"
    using up lo jj sv unfolding P_def [symmetric] T_def [symmetric] by cases auto
  then show ?thesis by (simp only: T_def)
qed

section \<open>Claims about the index list\<close>

text \<open>
  C2. For segment counts of at least 1 the list returned by getIndices has length
  segmentsU * segmentsV * 6. The cell (i, j), with i below segmentsU and j below
  segmentsV, contributes the six consecutive entries starting at position
  6 * (i * segmentsV + j): with p = i * (segmentsV + 1) + j and q = p + (segmentsV + 1)
  they are p, q, p + 1 and then p + 1, q, q + 1, in this order. Since the cells tile the
  whole list, nothing else is emitted. Every entry is a vertex number: at least 0 and
  strictly below (segmentsU + 1) * (segmentsV + 1).
\<close>

theorem getIndices_layout:
  assumes "1 \<le> su" and "1 \<le> sv"
  shows "length (getIndices su sv) = nat (su * sv * 6)
    \<and> (\<forall>i<nat su. \<forall>j<nat sv.
          take 6 (drop (6 * (i * nat sv + j)) (getIndices su sv)) =
            (let p = int i * (sv + 1) + int j; q = p + (sv + 1)
             in [p, q, p + 1, p + 1, q, q + 1]))
    \<and> (\<forall>x\<in>set (getIndices su sv). 0 \<le> x \<and> x < (su + 1) * (sv + 1))"
proof (intro conjI allI impI ballI)
  have "nat (su * sv * 6) = nat su * (nat sv * 6)"
    using assms by (simp add: nat_mult_distrib mult.assoc)
  then show "length (getIndices su sv) = nat (su * sv * 6)"
    by (simp add: length_getIndices)
next
  fix i j assume "i < nat su" and "j < nat sv"
  then show "take 6 (drop (6 * (i * nat sv + j)) (getIndices su sv)) =
            (let p = int i * (sv + 1) + int j; q = p + (sv + 1)
             in [p, q, p + 1, p + 1, q, q + 1])"
    by (simp only: block_getIndices cellIndices_def)
next
  fix x assume "x \<in> set (getIndices su sv)"
  then obtain i j where "i < nat su" "j < nat sv" "x \<in> set (cellIndices sv i j)"
    using set_getIndices by blast
  then have "0 \<le> x \<and> x < (su + 1) * (sv + 1)" by (rule cellIndices_bounds)
  then show "0 \<le> x" and "x < (su + 1) * (sv + 1)" by simp_all
qed

theorem getIndices_layout_witness:
  "(1::int) \<le> 2 \<and> (1::int) \<le> 2
    \<and> length (getIndices 2 2) = 24
    \<and> take 6 (drop 18 (getIndices 2 2)) = [4, 7, 5, 5, 7, 8]
    \<and> (8 \<in> set (getIndices 2 2) \<and> (0::int) \<le> 8 \<and> (8::int) < 9)"
proof -
  have h: "(1::int) \<le> 2" by simp
  note t = getIndices_layout [OF h h]
  have len: "length (getIndices 2 2) = 24" using t by simp
  have "(1::nat) < nat 2" by simp
  then have "take 6 (drop (6 * (1 * nat 2 + 1)) (getIndices 2 2)) =
            (let p = int 1 * (2 + 1) + int 1; q = p + (2 + 1)
             in [p, q, p + 1, p + 1, q, q + 1])"
    using t by blast
  then have blk: "take 6 (drop 18 (getIndices 2 2)) = [4, 7, 5, 5, 7, 8]"
    by (simp add: Let_def)
  have "8 \<in> set (take 6 (drop 18 (getIndices 2 2)))" by (simp only: blk) simp
  then have mem: "8 \<in> set (getIndices 2 2)" by (meson in_set_dropD in_set_takeD)
  show ?thesis using h len blk mem by simp
qed

section \<open>The vertex grid\<close>

lemma getVertices_concat:
  "getVertices radius a n su sv =
     concat (map (\<lambda>i. concat (map (\<lambda>j. vertexAt radius a n su sv i j) [0..<nat (sv + 1)]))
       [0..<nat (su + 1)])"
  unfolding getVertices_def vertexAt_def Let_def
  by (simp only: fold_push append_Nil)

lemma getNormals_concat:
  "getNormals su sv =
     concat (map (\<lambda>i. concat (map (\<lambda>j. normalAt su sv i j) [0..<nat (sv + 1)]))
       [0..<nat (su + 1)])"
  unfolding getNormals_def normalAt_def Let_def
  by (simp only: fold_push append_Nil)

lemma length_vertexAt: "length (vertexAt radius a n su sv i j) = 3"
  by (simp add: vertexAt_def Let_def)

lemma length_normalAt: "length (normalAt su sv i j) = 3"
  by (simp add: normalAt_def Let_def)

text \<open>A grid of rows of blocks of three values, flattened row by row.\<close>

lemma length_grid:
  assumes "\<And>i j. length (f i j) = 3"
  shows "length (concat (map (\<lambda>i. concat (map (\<lambda>j. f i j) [0..<m])) [0..<k])) = k * (m * 3)"
proof -
  have row: "\<And>i. length (concat (map (\<lambda>j. f i j) [0..<m])) = m * 3"
    by (rule length_concat_uniform) (rule assms)
  show ?thesis by (rule length_concat_uniform) (rule row)
qed

lemma block_grid:
  assumes len: "\<And>i j. length (f i j) = 3" and i: "i < k" and j: "j < m"
  shows "take 3 (drop (3 * (i * m + j))
           (concat (map (\<lambda>i. concat (map (\<lambda>j. f i j) [0..<m])) [0..<k]))) = f i j"
proof -
  let ?row = "\<lambda>i. concat (map (\<lambda>j. f i j) [0..<m])"
  let ?all = "concat (map ?row [0..<k])"
  have lrow: "\<And>i. length (?row i) = m * 3"
    by (rule length_concat_uniform) (rule len)
  have row: "take (m * 3) (drop (i * (m * 3)) ?all) = ?row i"
    by (rule block_concat_uniform) (simp_all only: lrow i)
  have cell: "take 3 (drop (j * 3) (?row i)) = f i j"
    by (rule block_concat_uniform) (simp_all only: len j)
  have "Suc j * 3 \<le> m * 3" using j by (intro mult_le_mono1) simp
  then have le: "j * 3 + 3 \<le> m * 3" by simp
  have "take 3 (drop (j * 3) (?row i))
      = take 3 (drop (j * 3) (take (m * 3) (drop (i * (m * 3)) ?all)))"
    by (simp only: row)
  also have "\<dots> = take 3 (drop (j * 3 + i * (m * 3)) ?all)"
    using le by (simp add: drop_take min_def)
  also have "j * 3 + i * (m * 3) = 3 * (i * m + j)" by (simp add: algebra_simps)
  finally show ?thesis using cell by simp
qed

lemma length_getVertices:
  "length (getVertices radius a n su sv) = nat (su + 1) * (nat (sv + 1) * 3)"
  unfolding getVertices_concat by (rule length_grid) (rule length_vertexAt)

lemma block_getVertices:
  "i < nat (su + 1) \<Longrightarrow> j < nat (sv + 1) \<Longrightarrow>
   take 3 (drop (3 * (i * nat (sv + 1) + j)) (getVertices radius a n su sv))
     = vertexAt radius a n su sv i j"
  unfolding getVertices_concat by (rule block_grid) (simp_all only: length_vertexAt)

lemma length_getNormals:
  "length (getNormals su sv) = nat (su + 1) * (nat (sv + 1) * 3)"
  unfolding getNormals_concat by (rule length_grid) (rule length_normalAt)

lemma block_getNormals:
  "i < nat (su + 1) \<Longrightarrow> j < nat (sv + 1) \<Longrightarrow>
   take 3 (drop (3 * (i * nat (sv + 1) + j)) (getNormals su sv)) = normalAt su sv i j"
  unfolding getNormals_concat by (rule block_grid) (simp_all only: length_normalAt)

text \<open>With non-zero segment counts every coordinate is a number, given by the formula.\<close>

lemma vertexAt_position:
  "su \<noteq> 0 \<Longrightarrow> sv \<noteq> 0 \<Longrightarrow>
   vertexAt (Some radius) (Some a) (Some n) su sv i j
     = map Some (spec_position radius a n (spec_phi su i) (spec_v sv j))"
  by (simp add: vertexAt_def spec_position_def spec_phi_def spec_v_def ofNat_def ofInt_def Let_def)

lemma normalAt_analytic:
  "su \<noteq> 0 \<Longrightarrow> sv \<noteq> 0 \<Longrightarrow>
   normalAt su sv i j = map Some (spec_analyticNormal (spec_phi su i) (spec_v sv j))"
  by (simp add: normalAt_def spec_analyticNormal_def spec_phi_def spec_v_def ofNat_def ofInt_def
      Let_def)

section \<open>Claims about the vertex grid and the analytic normals\<close>

lemma spec_position_seam:
  assumes "n \<in> \<int>"
  shows "spec_position radius a n (2 * pi) v = spec_position radius a n 0 v"
proof -
  from assms obtain k where k: "n = of_int k" by (auto elim: Ints_cases)
  have "cos (n * (2 * pi)) = 1"
    using cos_int_2pin [of k] by (simp add: k mult.commute)
  then show ?thesis by (simp add: spec_position_def)
qed

lemma spec_phi_ends: "su \<noteq> 0 \<Longrightarrow> spec_phi su 0 = 0" "1 \<le> su \<Longrightarrow> spec_phi su (nat su) = 2 * pi"
  by (simp_all add: spec_phi_def)

text \<open>
  C1. For segment counts of at least 1 the vertex array of the triangulated builder has
  3 * (segmentsU + 1) * (segmentsV + 1) entries, three per vertex. For i up to segmentsU
  and j up to segmentsV the three entries of vertex number i * (segmentsV + 1) + j are
  s * cos phi, s * sin phi and radius * sin v, where phi = (i / segmentsU) * 2 * pi,
  v = (j / segmentsV) * pi and
  s = radius * cos v + amplitude * (1 - sin v) * cos (waveCount * phi).
\<close>

theorem getVertices_grid:
  assumes "1 \<le> su" and "1 \<le> sv"
  shows "int (length (getVertices (Some radius) (Some a) (Some n) su sv))
           = 3 * ((su + 1) * (sv + 1))
    \<and> (\<forall>i\<le>nat su. \<forall>j\<le>nat sv.
          take 3 (drop (3 * (i * nat (sv + 1) + j))
                   (getVertices (Some radius) (Some a) (Some n) su sv)) =
            (let phi = (real i / real_of_int su) * 2 * pi;
                 v = (real j / real_of_int sv) * pi;
                 s = radius * cos v + a * (1 - sin v) * cos (n * phi)
             in [Some (s * cos phi), Some (s * sin phi), Some (radius * sin v)]))"
proof (intro conjI allI impI)
  have "int (nat (su + 1) * (nat (sv + 1) * 3)) = 3 * ((su + 1) * (sv + 1))"
    using assms by simp
  then show "int (length (getVertices (Some radius) (Some a) (Some n) su sv))
           = 3 * ((su + 1) * (sv + 1))"
    by (simp only: length_getVertices)
next
  fix i j assume "i \<le> nat su" and "j \<le> nat sv"
  then have "i < nat (su + 1)" and "j < nat (sv + 1)" using assms by simp_all
  then have "take 3 (drop (3 * (i * nat (sv + 1) + j))
                   (getVertices (Some radius) (Some a) (Some n) su sv))
      = vertexAt (Some radius) (Some a) (Some n) su sv i j"
    by (rule block_getVertices)
  also have "\<dots> = map Some (spec_position radius a n (spec_phi su i) (spec_v sv j))"
    using assms by (intro vertexAt_position) simp_all
  finally show "take 3 (drop (3 * (i * nat (sv + 1) + j))
                   (getVertices (Some radius) (Some a) (Some n) su sv)) =
            (let phi = (real i / real_of_int su) * 2 * pi;
                 v = (real j / real_of_int sv) * pi;
                 s = radius * cos v + a * (1 - sin v) * cos (n * phi)
             in [Some (s * cos phi), Some (s * sin phi), Some (radius * sin v)])"
    by (simp add: spec_position_def spec_phi_def spec_v_def Let_def)
qed

theorem getVertices_grid_witness:
  "(1::int) \<le> 2 \<and> (1::int) \<le> 2
   \<and> length (getVertices (Some 10) (Some 1) (Some 3) 2 2) = 27
   \<and> take 3 (drop 12 (getVertices (Some 10) (Some 1) (Some 3) 2 2)) = [Some 0, Some 0, Some 10]"
proof -
  have h: "(1::int) \<le> 2" by simp
  note t = getVertices_grid [OF h h, of 10 1 3]
  have "int (length (getVertices (Some 10) (Some 1) (Some 3) 2 2)) = 27" using t by simp
  then have len: "length (getVertices (Some 10) (Some 1) (Some 3) 2 2) = 27" by simp
  have "(1::nat) \<le> nat 2" by simp
  then have "take 3 (drop (3 * (1 * nat (2 + 1) + 1))
                   (getVertices (Some 10) (Some 1) (Some 3) 2 2)) =
            (let phi = (real 1 / real_of_int 2) * 2 * pi;
                 v = (real 1 / real_of_int 2) * pi;
                 s = 10 * cos v + 1 * (1 - sin v) * cos (3 * phi)
             in [Some (s * cos phi), Some (s * sin phi), Some (10 * sin v)])"
    using t by blast
  then have "take 3 (drop 12 (getVertices (Some 10) (Some 1) (Some 3) 2 2))
      = [Some 0, Some 0, Some 10]"
    by (simp add: Let_def)
  then show ?thesis using h len by simp
qed

text \<open>
  C8. For segment counts of at least 1, i up to segmentsU and j up to segmentsV, the
  analytic-normal builder getNormals stores at the row-major place of vertex (i, j) the
  vector (cos v * cos phi, cos v * sin phi, sin v). This vector has length 1, and it is
  the point of the undisplaced sphere of radius 1 (amplitude 0, any wave count) at the
  same angles: it does not depend on the corrugation.
\<close>

theorem getNormals_sphere:
  assumes "1 \<le> su" and "1 \<le> sv"
  shows "\<forall>i\<le>nat su. \<forall>j\<le>nat sv.
          (let phi = (real i / real_of_int su) * 2 * pi;
               v = (real j / real_of_int sv) * pi;
               nx = cos v * cos phi;
               ny = cos v * sin phi;
               nz = sin v
           in take 3 (drop (3 * (i * nat (sv + 1) + j)) (getNormals su sv))
                = [Some nx, Some ny, Some nz]
              \<and> sqrt (nx * nx + ny * ny + nz * nz) = 1
              \<and> [nx, ny, nz] = spec_position 1 0 w phi v)"
proof (intro allI impI)
  fix i j assume "i \<le> nat su" and "j \<le> nat sv"
  then have "i < nat (su + 1)" and "j < nat (sv + 1)" using assms by simp_all
  then have "take 3 (drop (3 * (i * nat (sv + 1) + j)) (getNormals su sv))
      = normalAt su sv i j"
    by (rule block_getNormals)
  also have "\<dots> = map Some (spec_analyticNormal (spec_phi su i) (spec_v sv j))"
    using assms by (intro normalAt_analytic) simp_all
  finally have blk: "take 3 (drop (3 * (i * nat (sv + 1) + j)) (getNormals su sv))
      = map Some (spec_analyticNormal (spec_phi su i) (spec_v sv j))" .
  have unit: "sqrt ((cos v * cos phi) * (cos v * cos phi) + (cos v * sin phi) * (cos v * sin phi)
      + sin v * sin v) = 1" for phi v :: real
  proof -
    have "(cos v * cos phi) * (cos v * cos phi) + (cos v * sin phi) * (cos v * sin phi)
        + sin v * sin v = (cos v)\<^sup>2 * ((cos phi)\<^sup>2 + (sin phi)\<^sup>2) + (sin v)\<^sup>2"
      by (simp only: power2_eq_square algebra_simps)
    also have "\<dots> = 1" by simp
    finally have e: "(cos v * cos phi) * (cos v * cos phi)
        + (cos v * sin phi) * (cos v * sin phi) + sin v * sin v = 1" .
    show ?thesis by (simp only: e real_sqrt_one)
  qed
  show "let phi = (real i / real_of_int su) * 2 * pi;
               v = (real j / real_of_int sv) * pi;
               nx = cos v * cos phi;
               ny = cos v * sin phi;
               nz = sin v
           in take 3 (drop (3 * (i * nat (sv + 1) + j)) (getNormals su sv))
                = [Some nx, Some ny, Some nz]
              \<and> sqrt (nx * nx + ny * ny + nz * nz) = 1
              \<and> [nx, ny, nz] = spec_position 1 0 w phi v"
    unfolding Let_def
  proof (intro conjI)
    show "take 3 (drop (3 * (i * nat (sv + 1) + j)) (getNormals su sv)) =
      [Some (cos (real j / real_of_int sv * pi) * cos (real i / real_of_int su * 2 * pi)),
       Some (cos (real j / real_of_int sv * pi) * sin (real i / real_of_int su * 2 * pi)),
       Some (sin (real j / real_of_int sv * pi))]"
      by (simp only: blk) (simp add: spec_analyticNormal_def spec_phi_def spec_v_def)
    show "sqrt (cos (real j / real_of_int sv * pi) * cos (real i / real_of_int su * 2 * pi) *
          (cos (real j / real_of_int sv * pi) * cos (real i / real_of_int su * 2 * pi)) +
          cos (real j / real_of_int sv * pi) * sin (real i / real_of_int su * 2 * pi) *
          (cos (real j / real_of_int sv * pi) * sin (real i / real_of_int su * 2 * pi)) +
          sin (real j / real_of_int sv * pi) * sin (real j / real_of_int sv * pi)) = 1"
      by (rule unit)
    show "[cos (real j / real_of_int sv * pi) * cos (real i / real_of_int su * 2 * pi),
       cos (real j / real_of_int sv * pi) * sin (real i / real_of_int su * 2 * pi),
       sin (real j / real_of_int sv * pi)]
      = spec_position 1 0 w (real i / real_of_int su * 2 * pi) (real j / real_of_int sv * pi)"
      by (simp add: spec_position_def Let_def)
  qed
qed

theorem getNormals_sphere_witness:
  "(1::int) \<le> 2 \<and> (1::int) \<le> 2
   \<and> take 3 (drop 12 (getNormals 2 2)) = [Some 0, Some 0, Some 1]
   \<and> sqrt (0 * 0 + 0 * 0 + 1 * 1) = (1::real)"
proof -
  have h: "(1::int) \<le> 2" by simp
  note t = getNormals_sphere [OF h h, of 0]
  have "(1::nat) \<le> nat 2" by simp
  then have "(let phi = (real 1 / real_of_int 2) * 2 * pi;
               v = (real 1 / real_of_int 2) * pi;
               nx = cos v * cos phi;
               ny = cos v * sin phi;
               nz = sin v
           in take 3 (drop (3 * (1 * nat (2 + 1) + 1)) (getNormals 2 2))
                = [Some nx, Some ny, Some nz]
              \<and> sqrt (nx * nx + ny * ny + nz * nz) = 1
              \<and> [nx, ny, nz] = spec_position 1 0 0 phi v)"
    using t by blast
  then have "take 3 (drop 12 (getNormals 2 2)) = [Some 0, Some 0, Some 1]"
    by (simp add: Let_def)
  then show ?thesis using h by simp
qed

text \<open>
  C6. For segment counts of at least 1, an integer wave count and j up to segmentsV, the
  vertex at grid position (0, j) and the vertex at grid position (segmentsU, j) have the
  same three coordinates (in exact arithmetic: equal, not only close). They are stored
  twice all the same: the two vertices lie at different offsets of the vertex array,
  both inside it.
\<close>

theorem getVertices_seam:
  assumes "1 \<le> su" and "1 \<le> sv" and "n \<in> \<int>" and "j \<le> nat sv"
  shows "take 3 (drop (3 * (0 * nat (sv + 1) + j))
                  (getVertices (Some radius) (Some a) (Some n) su sv))
       = take 3 (drop (3 * (nat su * nat (sv + 1) + j))
                  (getVertices (Some radius) (Some a) (Some n) su sv))
    \<and> 3 * (0 * nat (sv + 1) + j) + 3 \<le> 3 * (nat su * nat (sv + 1) + j)
    \<and> 3 * (nat su * nat (sv + 1) + j) + 3
         \<le> length (getVertices (Some radius) (Some a) (Some n) su sv)"
proof (intro conjI)
  have j: "j < nat (sv + 1)" using assms by simp
  have "0 < nat (su + 1)" using assms by simp
  then have first: "take 3 (drop (3 * (0 * nat (sv + 1) + j))
                  (getVertices (Some radius) (Some a) (Some n) su sv))
      = vertexAt (Some radius) (Some a) (Some n) su sv 0 j"
    using j by (rule block_getVertices)
  have "nat su < nat (su + 1)" using assms by simp
  then have last: "take 3 (drop (3 * (nat su * nat (sv + 1) + j))
                  (getVertices (Some radius) (Some a) (Some n) su sv))
      = vertexAt (Some radius) (Some a) (Some n) su sv (nat su) j"
    using j by (rule block_getVertices)
  have nz: "su \<noteq> 0" "sv \<noteq> 0" using assms by simp_all
  have "vertexAt (Some radius) (Some a) (Some n) su sv (nat su) j
      = map Some (spec_position radius a n (2 * pi) (spec_v sv j))"
    using assms(1) by (simp only: vertexAt_position [OF nz] spec_phi_ends)
  also have "\<dots> = map Some (spec_position radius a n 0 (spec_v sv j))"
    using assms(3) by (simp only: spec_position_seam)
  also have "\<dots> = vertexAt (Some radius) (Some a) (Some n) su sv 0 j"
    by (simp only: vertexAt_position [OF nz] spec_phi_ends(1) [OF nz(1)])
  finally show "take 3 (drop (3 * (0 * nat (sv + 1) + j))
                  (getVertices (Some radius) (Some a) (Some n) su sv))
       = take 3 (drop (3 * (nat su * nat (sv + 1) + j))
                  (getVertices (Some radius) (Some a) (Some n) su sv))"
    by (simp only: first last)
next
  have "1 * nat (sv + 1) \<le> nat su * nat (sv + 1)"
    using assms by (intro mult_le_mono1) simp
  then show "3 * (0 * nat (sv + 1) + j) + 3 \<le> 3 * (nat su * nat (sv + 1) + j)"
    using assms by simp
next
  have "nat (su + 1) = Suc (nat su)" using assms by simp
  then have "length (getVertices (Some radius) (Some a) (Some n) su sv)
      = 3 * (nat su * nat (sv + 1)) + 3 * nat (sv + 1)"
    by (simp add: length_getVertices algebra_simps)
  then show "3 * (nat su * nat (sv + 1) + j) + 3
         \<le> length (getVertices (Some radius) (Some a) (Some n) su sv)"
    using assms by simp
qed

theorem getVertices_seam_witness:
  "(1::int) \<le> 2 \<and> (1::int) \<le> 2 \<and> (3::real) \<in> \<int> \<and> (1::nat) \<le> nat 2
   \<and> take 3 (drop 3 (getVertices (Some 10) (Some 1) (Some 3) 2 2))
       = take 3 (drop 21 (getVertices (Some 10) (Some 1) (Some 3) 2 2))
   \<and> (6::nat) \<le> 21
   \<and> 24 \<le> length (getVertices (Some 10) (Some 1) (Some 3) 2 2)"
proof -
  have h: "(1::int) \<le> 2" and z: "(3::real) \<in> \<int>" and j: "(1::nat) \<le> nat 2" by simp_all
  show ?thesis using getVertices_seam [OF h h z j, of 10 1] h z j by simp
qed

section \<open>The wireframe buffers\<close>

lemma createUVertices_getVertices:
  "createUVertices radius corrugation n su sv = getVertices radius corrugation n su sv"
  unfolding createUVertices_def getVertices_def Let_def by (rule refl)

lemma fold_push_fun: "fold (\<lambda>i acc. acc @ f i) xs = (\<lambda>acc. acc @ concat (map f xs))"
  by (rule ext) (rule fold_push)

lemma createVVertices_concat:
  "createVVertices radius corrugation n su sv =
     concat (map (\<lambda>j. concat (map (\<lambda>i. vertexAt radius corrugation n su sv i j)
       [0..<nat (su + 1)])) [0..<nat (sv + 1)])"
  unfolding createVVertices_def vertexAt_def Let_def
  by (simp only: fold_push fold_push_fun append_Nil)

lemma length_createVVertices:
  "length (createVVertices radius corrugation n su sv) = nat (sv + 1) * (nat (su + 1) * 3)"
  unfolding createVVertices_concat by (rule length_grid) (rule length_vertexAt)

lemma block_createVVertices:
  "i < nat (su + 1) \<Longrightarrow> j < nat (sv + 1) \<Longrightarrow>
   take 3 (drop (3 * (j * nat (su + 1) + i)) (createVVertices radius corrugation n su sv))
     = vertexAt radius corrugation n su sv i j"
  unfolding createVVertices_concat
  by (rule block_grid [where f = "\<lambda>j i. vertexAt radius corrugation n su sv i j"])
     (simp_all only: length_vertexAt)

text \<open>
  C7. The U-buffer of the curve-grid builder holds segmentsU + 1 polylines of
  segmentsV + 1 points each, one after the other: point j of polyline i is vertex number
  i * (segmentsV + 1) + j of the buffer. The V-buffer holds segmentsV + 1 polylines of
  segmentsU + 1 points each: point i of polyline j is vertex number
  j * (segmentsU + 1) + i. Both points are the value that the loop body of the
  triangulated builder computes for (i, j), so all points of U-polyline i share phi_i
  and all points of V-polyline j share v_j; with non-zero segment counts this value is
  the position formula at phi = (i / segmentsU) * 2 * pi and v = (j / segmentsV) * pi.
  The U-buffer is the vertex array of the triangulated builder. A negative count
  segments + 1 stands for no polyline. For segmentsU = segmentsV = 3 the two vertex
  counts are 16 and 16, 32 points in all.
\<close>

theorem curve_grid_layout:
  "length (createUVertices (Some radius) (Some a) (Some n) su sv)
      = 3 * (nat (su + 1) * nat (sv + 1))
   \<and> length (createVVertices (Some radius) (Some a) (Some n) su sv)
      = 3 * (nat (sv + 1) * nat (su + 1))
   \<and> (\<forall>i<nat (su + 1). \<forall>j<nat (sv + 1).
         take 3 (drop (3 * (i * nat (sv + 1) + j))
                  (createUVertices (Some radius) (Some a) (Some n) su sv))
           = vertexAt (Some radius) (Some a) (Some n) su sv i j
       \<and> take 3 (drop (3 * (j * nat (su + 1) + i))
                  (createVVertices (Some radius) (Some a) (Some n) su sv))
           = vertexAt (Some radius) (Some a) (Some n) su sv i j
       \<and> (su \<noteq> 0 \<and> sv \<noteq> 0 \<longrightarrow>
            vertexAt (Some radius) (Some a) (Some n) su sv i j
              = map Some (spec_position radius a n
                   ((real i / real_of_int su) * 2 * pi) ((real j / real_of_int sv) * pi))))
   \<and> createUVertices (Some radius) (Some a) (Some n) su sv
        = getVertices (Some radius) (Some a) (Some n) su sv
   \<and> uVertexCount (bufferData_curves (Some radius) (Some a) (Some n) 3 3) = Some 16
   \<and> vVertexCount (bufferData_curves (Some radius) (Some a) (Some n) 3 3) = Some 16
   \<and> nadd (uVertexCount (fst (updateModel_curves (Some radius) (Some a) (Some n) 3)))
            (vVertexCount (fst (updateModel_curves (Some radius) (Some a) (Some n) 3)))
        = Some 32"
proof -
  have lenU: "length (createUVertices (Some radius) (Some a) (Some n) su sv)
      = 3 * (nat (su + 1) * nat (sv + 1))" for su sv
    by (simp add: createUVertices_getVertices length_getVertices)
  have lenV: "length (createVVertices (Some radius) (Some a) (Some n) su sv)
      = 3 * (nat (sv + 1) * nat (su + 1))" for su sv
    by (simp add: length_createVVertices)
  have pts: "\<forall>i<nat (su + 1). \<forall>j<nat (sv + 1).
         take 3 (drop (3 * (i * nat (sv + 1) + j))
                  (createUVertices (Some radius) (Some a) (Some n) su sv))
           = vertexAt (Some radius) (Some a) (Some n) su sv i j
       \<and> take 3 (drop (3 * (j * nat (su + 1) + i))
                  (createVVertices (Some radius) (Some a) (Some n) su sv))
           = vertexAt (Some radius) (Some a) (Some n) su sv i j
       \<and> (su \<noteq> 0 \<and> sv \<noteq> 0 \<longrightarrow>
            vertexAt (Some radius) (Some a) (Some n) su sv i j
              = map Some (spec_position radius a n
                   ((real i / real_of_int su) * 2 * pi) ((real j / real_of_int sv) * pi)))"
  proof (intro allI impI conjI)
    fix i j assume ij: "i < nat (su + 1)" "j < nat (sv + 1)"
    show "take 3 (drop (3 * (i * nat (sv + 1) + j))
                  (createUVertices (Some radius) (Some a) (Some n) su sv))
           = vertexAt (Some radius) (Some a) (Some n) su sv i j"
      unfolding createUVertices_getVertices using ij by (rule block_getVertices)
    show "take 3 (drop (3 * (j * nat (su + 1) + i))
                  (createVVertices (Some radius) (Some a) (Some n) su sv))
           = vertexAt (Some radius) (Some a) (Some n) su sv i j"
      using ij by (rule block_createVVertices)
  next
    fix i j assume "su \<noteq> 0 \<and> sv \<noteq> 0"
    then show "vertexAt (Some radius) (Some a) (Some n) su sv i j
              = map Some (spec_position radius a n
                   ((real i / real_of_int su) * 2 * pi) ((real j / real_of_int sv) * pi))"
      by (simp add: vertexAt_position spec_phi_def spec_v_def)
  qed
  have cu: "uVertexCount (bufferData_curves (Some radius) (Some a) (Some n) 3 3) = Some 16"
    by (simp add: bufferData_curves_def Let_def lenU ofNat_def)
  have cv: "vVertexCount (bufferData_curves (Some radius) (Some a) (Some n) 3 3) = Some 16"
    by (simp add: bufferData_curves_def Let_def lenV ofNat_def)
  have total: "nadd (uVertexCount (fst (updateModel_curves (Some radius) (Some a) (Some n) 3)))
            (vVertexCount (fst (updateModel_curves (Some radius) (Some a) (Some n) 3)))
        = Some 32"
    by (simp add: updateModel_curves_def cu cv)
  show ?thesis
    using lenU lenV pts cu cv total createUVertices_getVertices by blast
qed

theorem curve_grid_layout_witness:
  "take 3 (drop 18 (createUVertices (Some 10) (Some 1) (Some 2) 3 3))
      = vertexAt (Some 10) (Some 1) (Some 2) 3 3 1 2
   \<and> take 3 (drop 27 (createVVertices (Some 10) (Some 1) (Some 2) 3 3))
      = vertexAt (Some 10) (Some 1) (Some 2) 3 3 1 2
   \<and> vertexAt (Some 10) (Some 1) (Some 2) 3 3 1 2
      = map Some (spec_position 10 1 2 ((real 1 / real_of_int 3) * 2 * pi)
                    ((real 2 / real_of_int 3) * pi))"
proof -
  note t = curve_grid_layout [of 10 1 2 3 3]
  have "(1::nat) < nat (3 + 1)" and "(2::nat) < nat (3 + 1)" and "(3::int) \<noteq> 0 \<and> (3::int) \<noteq> 0"
    by simp_all
  then have "take 3 (drop (3 * (1 * nat (3 + 1) + 2))
                  (createUVertices (Some 10) (Some 1) (Some 2) 3 3))
           = vertexAt (Some 10) (Some 1) (Some 2) 3 3 1 2
       \<and> take 3 (drop (3 * (2 * nat (3 + 1) + 1))
                  (createVVertices (Some 10) (Some 1) (Some 2) 3 3))
           = vertexAt (Some 10) (Some 1) (Some 2) 3 3 1 2
       \<and> vertexAt (Some 10) (Some 1) (Some 2) 3 3 1 2
              = map Some (spec_position 10 1 2
                   ((real 1 / real_of_int 3) * 2 * pi) ((real 2 / real_of_int 3) * pi))"
    using t by blast
  then show ?thesis by simp
qed

section \<open>Drawing the wireframe\<close>

text \<open>
  C9 (the code departs from it). For linesCount = 3 each buffer holds four polylines of
  four points, at the point offsets 0, 4, 8 and 12. The draw loops run while
  \<open>i < segments\<close>, not \<open>i <= segments\<close>: draw issues three calls per buffer, for the
  offsets 0, 4 and 8, and none for the polyline at offset 12, which lies inside both
  buffers.
\<close>

theorem draw_curves_omits_last:
  "snd (updateModel_curves radius a n 3) =
     [BindBuffer UVertexBuffer,
      DrawArraysLineStrip 0 4, DrawArraysLineStrip 4 4, DrawArraysLineStrip 8 4,
      BindBuffer VVertexBuffer,
      DrawArraysLineStrip 0 4, DrawArraysLineStrip 4 4, DrawArraysLineStrip 8 4]
   \<and> DrawArraysLineStrip 12 4 \<notin> set (snd (updateModel_curves radius a n 3))
   \<and> length (uVertexBuffer (fst (updateModel_curves radius a n 3))) = 3 * (12 + 4)
   \<and> length (vVertexBuffer (fst (updateModel_curves radius a n 3))) = 3 * (12 + 4)"
proof -
  have d: "draw_curves 3 3 =
     [BindBuffer UVertexBuffer,
      DrawArraysLineStrip 0 4, DrawArraysLineStrip 4 4, DrawArraysLineStrip 8 4,
      BindBuffer VVertexBuffer,
      DrawArraysLineStrip 0 4, DrawArraysLineStrip 4 4, DrawArraysLineStrip 8 4]"
    by (simp add: draw_curves_def Let_def upt_rec)
  have u: "length (createUVertices radius a n 3 3) = 48"
    by (simp add: createUVertices_getVertices length_getVertices)
  have v: "length (createVVertices radius a n 3 3) = 48"
    by (simp add: length_createVVertices)
  show ?thesis
    by (simp add: updateModel_curves_def d bufferData_curves_def Let_def Float32Array_def u v)
qed

section \<open>The uploaded index buffer\<close>

lemma uint_Uint16Array:
  "map uint (Uint16Array indices) = map (\<lambda>x. x mod 2 ^ 16) indices"
  by (simp add: Uint16Array_def uint_word_of_int take_bit_eq_mod)

lemma Uint16Array_exact_iff:
  "map uint (Uint16Array indices) = indices \<longleftrightarrow> (\<forall>x\<in>set indices. 0 \<le> x \<and> x < 65536)"
proof -
  have "map (\<lambda>x. x mod 65536) indices = indices \<longleftrightarrow> (\<forall>x\<in>set indices. x mod 65536 = x)"
    by (induction indices) auto
  moreover have "x mod 65536 = x \<longleftrightarrow> 0 \<le> x \<and> x < 65536" for x :: int
    by (auto simp: zmod_trivial_iff)
  ultimately show ?thesis using uint_Uint16Array [of indices] by simp
qed

lemma Uint16Array_below:
  "x \<in> set (map uint (Uint16Array indices)) \<Longrightarrow> 0 \<le> x \<and> x < 65536"
  using uint_Uint16Array [of indices] by auto

text \<open>The largest index, the last vertex, is emitted by the last cell.\<close>

lemma last_index_emitted:
  assumes "1 \<le> su" and "1 \<le> sv"
  shows "(su + 1) * (sv + 1) - 1 \<in> set (getIndices su sv)"
proof -
  let ?i = "nat su - 1" and ?j = "nat sv - 1"
  have i: "?i < nat su" and j: "?j < nat sv" using assms by simp_all
  have "int ?i = su - 1" and "int ?j = sv - 1" using assms by simp_all
  then have "int ?i * (sv + 1) + int ?j + (sv + 1) + 1 = (su + 1) * (sv + 1) - 1"
    by (simp add: algebra_simps)
  then have "(su + 1) * (sv + 1) - 1 \<in> set (cellIndices sv ?i ?j)"
    by (simp add: cellIndices_def Let_def)
  then have "(su + 1) * (sv + 1) - 1
      \<in> set (take 6 (drop (6 * (?i * nat sv + ?j)) (getIndices su sv)))"
    by (simp only: block_getIndices [OF i j])
  then show ?thesis by (meson in_set_dropD in_set_takeD)
qed

lemma indices_below_iff:
  assumes "1 \<le> su" and "1 \<le> sv"
  shows "(\<forall>x\<in>set (getIndices su sv). 0 \<le> x \<and> x < 65536) \<longleftrightarrow> (su + 1) * (sv + 1) \<le> 65536"
proof
  assume "\<forall>x\<in>set (getIndices su sv). 0 \<le> x \<and> x < 65536"
  then have "(su + 1) * (sv + 1) - 1 < 65536"
    using last_index_emitted [OF assms] by blast
  then show "(su + 1) * (sv + 1) \<le> 65536" by simp
next
  assume le: "(su + 1) * (sv + 1) \<le> 65536"
  show "\<forall>x\<in>set (getIndices su sv). 0 \<le> x \<and> x < 65536"
  proof
    fix x assume "x \<in> set (getIndices su sv)"
    then obtain i j where "i < nat su" "j < nat sv" "x \<in> set (cellIndices sv i j)"
      using set_getIndices by blast
    then have "0 \<le> x \<and> x < (su + 1) * (sv + 1)" by (rule cellIndices_bounds)
    then show "0 \<le> x \<and> x < 65536" using le by simp
  qed
qed

lemma indexBuffer_bufferData:
  "indexBuffer (bufferData radius a n su sv) = Uint16Array (getIndices su sv)"
  "indexBuffer (bufferData_analytic radius a n su sv) = Uint16Array (getIndices su sv)"
  by (simp_all add: bufferData_def bufferData_analytic_def Let_def)

text \<open>
  C10, as the claim states it, fails in its last part. For segmentsU = segmentsV = 256
  there are 66049 vertices, more than 65536, and the uploaded index buffer differs from
  the generated index list; yet every uploaded index is below the vertex count, so the
  invariant still holds for the uploaded data.
\<close>

theorem uploaded_indices_counterexample:
  "\<not> (map uint (indexBuffer (bufferData (Some 1) (Some 0) (Some 0) 256 256)) = getIndices 256 256)
   \<and> list_all (\<lambda>x. 0 \<le> x \<and> x < (256 + 1) * (256 + 1))
        (map uint (indexBuffer (bufferData (Some 1) (Some 0) (Some 0) 256 256)))"
proof
  have h: "(1::int) \<le> 256" by simp
  have "\<not> (256 + 1) * (256 + 1) \<le> (65536::int)" by simp
  then have "\<not> (\<forall>x\<in>set (getIndices 256 256). 0 \<le> x \<and> x < 65536)"
    using indices_below_iff [OF h h] by simp
  then show "\<not> (map uint (indexBuffer (bufferData (Some 1) (Some 0) (Some 0) 256 256))
      = getIndices 256 256)"
    unfolding indexBuffer_bufferData Uint16Array_exact_iff .
next
  have "\<forall>x\<in>set (map uint (indexBuffer (bufferData (Some 1) (Some 0) (Some 0) 256 256))).
      0 \<le> x \<and> x < (256 + 1) * (256 + 1)"
  proof
    fix x
    assume "x \<in> set (map uint (indexBuffer (bufferData (Some 1) (Some 0) (Some 0) 256 256)))"
    then have "0 \<le> x \<and> x < 65536"
      unfolding indexBuffer_bufferData by (rule Uint16Array_below)
    then show "0 \<le> x \<and> x < (256 + 1) * (256 + 1)" by simp
  qed
  then show "list_all (\<lambda>x. 0 \<le> x \<and> x < (256 + 1) * (256 + 1))
        (map uint (indexBuffer (bufferData (Some 1) (Some 0) (Some 0) 256 256)))"
    by (simp only: list_all_iff)
qed

text \<open>
  C10, amended. bufferData (of both variants of the model) uploads the index list as
  a Uint16Array: every stored index is the generated index modulo 2 ^ 16. The uploaded
  buffer equals the index list if and only if every index is below 65536, which for
  segment counts of at least 1 says (segmentsU + 1) * (segmentsV + 1) <= 65536. For
  larger grids the uploaded list therefore differs from the generated one; every
  uploaded index is below 65536 all the same.
\<close>

theorem uploaded_indices:
  "map uint (indexBuffer (bufferData radius a n su sv))
      = map (\<lambda>x. x mod 2 ^ 16) (getIndices su sv)
   \<and> indexBuffer (bufferData_analytic radius a n su sv)
      = indexBuffer (bufferData radius a n su sv)
   \<and> (map uint (indexBuffer (bufferData radius a n su sv)) = getIndices su sv
        \<longleftrightarrow> (\<forall>x\<in>set (getIndices su sv). 0 \<le> x \<and> x < 65536))
   \<and> (1 \<le> su \<and> 1 \<le> sv \<longrightarrow>
        (map uint (indexBuffer (bufferData radius a n su sv)) = getIndices su sv
          \<longleftrightarrow> (su + 1) * (sv + 1) \<le> 65536))
   \<and> (\<forall>x\<in>set (map uint (indexBuffer (bufferData radius a n su sv))). 0 \<le> x \<and> x < 65536)"
proof (intro conjI impI ballI)
  show "map uint (indexBuffer (bufferData radius a n su sv))
      = map (\<lambda>x. x mod 2 ^ 16) (getIndices su sv)"
    by (simp only: indexBuffer_bufferData uint_Uint16Array)
  show "indexBuffer (bufferData_analytic radius a n su sv)
      = indexBuffer (bufferData radius a n su sv)"
    by (simp only: indexBuffer_bufferData)
  show "map uint (indexBuffer (bufferData radius a n su sv)) = getIndices su sv
        \<longleftrightarrow> (\<forall>x\<in>set (getIndices su sv). 0 \<le> x \<and> x < 65536)"
    by (simp only: indexBuffer_bufferData Uint16Array_exact_iff)
next
  assume "1 \<le> su \<and> 1 \<le> sv"
  then show "map uint (indexBuffer (bufferData radius a n su sv)) = getIndices su sv
          \<longleftrightarrow> (su + 1) * (sv + 1) \<le> 65536"
    by (simp only: indexBuffer_bufferData Uint16Array_exact_iff indices_below_iff)
next
  fix x assume "x \<in> set (map uint (indexBuffer (bufferData radius a n su sv)))"
  then have "0 \<le> x \<and> x < 65536"
    unfolding indexBuffer_bufferData by (rule Uint16Array_below)
  then show "0 \<le> x" and "x < 65536" by simp_all
qed

theorem uploaded_indices_witness:
  "map uint (indexBuffer (bufferData (Some 1) (Some 0) (Some 0) 1 1)) = [0, 2, 1, 1, 2, 3]
   \<and> ((1::int) \<le> 1 \<and> ((1::int) + 1) * (1 + 1) \<le> 65536)
   \<and> (3 \<in> set (map uint (indexBuffer (bufferData (Some 1) (Some 0) (Some 0) 1 1)))
        \<and> (0::int) \<le> 3 \<and> (3::int) < 65536)"
proof -
  note t = uploaded_indices [of "Some 1" "Some 0" "Some 0" 1 1]
  have g: "getIndices 1 1 = [0, 2, 1, 1, 2, 3]"
    by (simp add: getIndices_def Let_def upt_rec)
  have "(1::int) \<le> 1 \<and> (1::int) \<le> 1" by simp
  then have "map uint (indexBuffer (bufferData (Some 1) (Some 0) (Some 0) 1 1)) = getIndices 1 1
          \<longleftrightarrow> ((1::int) + 1) * (1 + 1) \<le> 65536"
    using t by blast
  then have m: "map uint (indexBuffer (bufferData (Some 1) (Some 0) (Some 0) 1 1))
      = [0, 2, 1, 1, 2, 3]"
    by (simp add: g)
  show ?thesis by (simp add: m)
qed

section \<open>The two loops of getFacetWeightedNormals keep the array's length\<close>

lemma length_addAt: "length (addAt normals k x) = length normals"
  by (simp add: addAt_def split: option.split)

lemma length_divAt: "length (divAt normals i x) = length normals"
  by (simp add: divAt_def)

lemma length_accumulateFacet:
  "length (accumulateFacet vertices indices i normals) = length normals"
  unfolding accumulateFacet_def Let_def by (simp only: length_addAt)

lemma length_accumulateFacets:
  "length (accumulateFacets vertices indices i normals) = length normals"
proof (induction vertices indices i normals rule: accumulateFacets.induct)
  case (1 vertices indices i normals)
  then show ?case
    by (subst accumulateFacets.simps) (simp add: length_accumulateFacet)
qed

lemma length_normalizeAt: "length (normalizeAt i normals) = length normals"
  unfolding normalizeAt_def Let_def by (simp only: length_divAt)

lemma length_normalizeAll: "length (normalizeAll i normals) = length normals"
proof (induction i normals rule: normalizeAll.induct)
  case (1 i normals)
  then show ?case
    by (subst normalizeAll.simps) (simp add: length_normalizeAt)
qed

lemma length_accumulated: "length (accumulated vertices indices) = length vertices"
  by (simp add: accumulated_def length_accumulateFacets)

lemma length_getFacetWeightedNormals:
  "length (getFacetWeightedNormals vertices indices) = length vertices"
  by (simp add: getFacetWeightedNormals_def length_normalizeAll length_accumulated)

lemma getIndices_empty: "su < 1 \<or> sv < 1 \<Longrightarrow> getIndices su sv = []"
  unfolding getIndices_concat by (auto simp: concat_eq_Nil_conv)

section \<open>No validation of the parameters\<close>

text \<open>
  C3, as the claim states it, fails. With segmentsU = 0 (radius 1, amplitude 0, wave
  count 0, segmentsV = 1) the constructor raises nothing and fills the three buffers:
  two vertices whose x and y are NaN, no index, and two normals that are NaN.
\<close>

theorem no_rejection_counterexample:
  "Model (Some 1) (Some 0) (Some 0) 0 1 =
     Inr \<lparr> vertexBuffer = [None, None, Some 0, None, None, Some 0],
           indexBuffer = [],
           normalBuffer = [None, None, None, None, None, None] \<rparr>"
proof -
  have v: "getVertices (Some 1) (Some 0) (Some 0) 0 1 = [None, None, Some 0, None, None, Some 0]"
    by (simp add: getVertices_def Let_def upt_rec ofNat_def ofInt_def)
  have i: "getIndices 0 1 = []"
    by (simp add: getIndices_def)
  have a: "accumulated [None, None, Some 0, None, None, Some 0] [] = [Some 0, Some 0, Some 0, Some 0, Some 0, Some 0]"
    by (simp add: accumulated_def accumulateFacets.simps)
  have n3: "normalizeAt 3 [None, None, None, Some 0, Some 0, Some 0]
      = [None, None, None, None, None, None]"
    by (simp add: normalizeAt_def readNum_def divAt_def Let_def numeral_eq_Suc)
  have n0: "normalizeAt 0 ([Some 0, Some 0, Some 0, Some 0, Some 0, Some 0]) = [None, None, None, Some 0, Some 0, Some 0]"
    by (simp add: normalizeAt_def readNum_def divAt_def Let_def numeral_eq_Suc)
  have "normalizeAll 0 ([Some 0, Some 0, Some 0, Some 0, Some 0, Some 0]) = normalizeAll 3 [None, None, None, Some 0, Some 0, Some 0]"
    by (subst normalizeAll.simps) (simp add: n0)
  also have "\<dots> = normalizeAll 6 [None, None, None, None, None, None]"
    by (subst normalizeAll.simps) (simp add: n3)
  also have "\<dots> = [None, None, None, None, None, None]"
    by (subst normalizeAll.simps) simp
  finally have n: "normalizeAll 0 ([Some 0, Some 0, Some 0, Some 0, Some 0, Some 0]) = [None, None, None, None, None, None]" .
  show ?thesis
    by (simp add: Model_def bufferData_def Let_def v i a n getFacetWeightedNormals_def
        Float32Array_def Uint16Array_def)
qed

text \<open>
  C3, amended. Mesh generation validates nothing. For every parameter set, also with
  segmentsU < 1 or segmentsV < 1, the constructor returns the buffers that bufferData
  fills, and never an InvalidParameter error. With a segment count below 1 the index
  list is empty, the vertex array has three entries for each of the
  max 0 (segmentsU + 1) * max 0 (segmentsV + 1) grid positions, and the normal array is
  as long as the vertex array.
\<close>

theorem no_rejection:
  "Model radius a n su sv = Inr (bufferData radius a n su sv)
   \<and> Model radius a n su sv \<noteq> Inl InvalidParameter
   \<and> (su < 1 \<or> sv < 1 \<longrightarrow>
        indexBuffer (bufferData radius a n su sv) = []
        \<and> length (vertexBuffer (bufferData radius a n su sv))
            = 3 * (nat (su + 1) * nat (sv + 1))
        \<and> length (normalBuffer (bufferData radius a n su sv))
            = length (vertexBuffer (bufferData radius a n su sv)))"
proof (intro conjI impI)
  show "Model radius a n su sv = Inr (bufferData radius a n su sv)"
    by (simp add: Model_def)
  show "Model radius a n su sv \<noteq> Inl InvalidParameter"
    by (simp add: Model_def)
next
  assume "su < 1 \<or> sv < 1"
  then show "indexBuffer (bufferData radius a n su sv) = []"
    by (simp add: bufferData_def Let_def Uint16Array_def getIndices_empty)
next
  show "length (vertexBuffer (bufferData radius a n su sv)) = 3 * (nat (su + 1) * nat (sv + 1))"
    by (simp add: bufferData_def Let_def Float32Array_def length_getVertices)
  show "length (normalBuffer (bufferData radius a n su sv))
            = length (vertexBuffer (bufferData radius a n su sv))"
    by (simp add: bufferData_def Let_def Float32Array_def length_getFacetWeightedNormals)
qed

theorem no_rejection_witness:
  "((0::int) < 1 \<or> (1::int) < 1)
   \<and> Model (Some 1) (Some 0) (Some 0) 0 1 = Inr (bufferData (Some 1) (Some 0) (Some 0) 0 1)
   \<and> indexBuffer (bufferData (Some 1) (Some 0) (Some 0) 0 1) = []
   \<and> length (vertexBuffer (bufferData (Some 1) (Some 0) (Some 0) 0 1)) = 6
   \<and> length (normalBuffer (bufferData (Some 1) (Some 0) (Some 0) 0 1)) = 6"
proof -
  have h: "(0::int) < 1 \<or> (1::int) < 1" by simp
  show ?thesis using no_rejection [of "Some 1" "Some 0" "Some 0" 0 1] h by simp
qed

section \<open>Flat arrays and vectors\<close>

lemma length_flatten: "length (flatten ps) = 3 * length ps"
  by (induction ps) simp_all

lemma flatten_append: "flatten (ps @ qs) = flatten ps @ flatten qs"
  by (induction ps) simp_all

lemma flatten_unflatten:
  "None \<notin> set xs \<Longrightarrow> length xs mod 3 = 0 \<Longrightarrow> flatten (unflatten xs) = xs"
proof (induction xs rule: unflatten.induct)
  case (1 x y z rest)
  have "length rest mod 3 = 0" using "1.prems"(2) by (simp add: mod_Suc split: if_splits)
  then show ?case using 1 by simp
qed (auto simp: mod_Suc split: if_splits)

lemma nth_flatten:
  "i < length ps \<Longrightarrow>
   flatten ps ! (3 * i) = Some (vx (ps ! i))
   \<and> flatten ps ! (3 * i + 1) = Some (vy (ps ! i))
   \<and> flatten ps ! (3 * i + 2) = Some (vz (ps ! i))"
proof (induction ps arbitrary: i)
  case Nil
  then show ?case by simp
next
  case (Cons p ps)
  show ?case
  proof (cases i)
    case 0
    then show ?thesis by simp
  next
    case (Suc k)
    then have k: "k < length ps" using Cons.prems by simp
    have e: "3 * Suc k = Suc (Suc (Suc (3 * k)))" by simp
    show ?thesis using Cons.IH [OF k] by (simp add: Suc e)
  qed
qed

lemma update_flatten:
  "i < length ps \<Longrightarrow>
   (flatten ps)[3 * i := Some x, 3 * i + 1 := Some y, 3 * i + 2 := Some z]
     = flatten (ps[i := Vec3 x y z])"
proof (induction ps arbitrary: i)
  case Nil
  then show ?case by simp
next
  case (Cons p ps)
  show ?case
  proof (cases i)
    case 0
    then show ?thesis by simp
  next
    case (Suc k)
    then have k: "k < length ps" using Cons.prems by simp
    have e: "3 * Suc k = Suc (Suc (Suc (3 * k)))" by simp
    show ?thesis using Cons.IH [OF k] by (simp add: Suc e)
  qed
qed

section \<open>One triangle\<close>

lemma readNum_flatten:
  assumes "0 \<le> a" and "nat a < length ps"
  shows "readNum (flatten ps) (times3 (Some a)) = Some (vx (ps ! nat a))"
    and "readNum (flatten ps) (indexPlus (times3 (Some a)) 1) = Some (vy (ps ! nat a))"
    and "readNum (flatten ps) (indexPlus (times3 (Some a)) 2) = Some (vz (ps ! nat a))"
proof -
  have n0: "nat (a * 3) = 3 * nat a" and n1: "nat (a * 3 + 1) = 3 * nat a + 1"
    and n2: "nat (a * 3 + 2) = 3 * nat a + 2"
    using assms(1) by (simp_all add: nat_mult_distrib nat_add_distrib)
  have lt: "3 * nat a + 2 < length (flatten ps)" using assms(2) by (simp add: length_flatten)
  note nf = nth_flatten [OF assms(2)]
  show "readNum (flatten ps) (times3 (Some a)) = Some (vx (ps ! nat a))"
    using assms(1) lt nf by (simp add: readNum_def times3_def n0)
  show "readNum (flatten ps) (indexPlus (times3 (Some a)) 1) = Some (vy (ps ! nat a))"
    using assms(1) lt nf by (simp add: readNum_def times3_def indexPlus_def n1)
  show "readNum (flatten ps) (indexPlus (times3 (Some a)) 2) = Some (vz (ps ! nat a))"
    using assms(1) lt nf by (simp add: readNum_def times3_def indexPlus_def n2)
qed

lemma addAt_flatten:
  assumes "0 \<le> a" and "nat a < length acc"
  shows "addAt (addAt (addAt (flatten acc) (times3 (Some a)) (Some w0))
                  (indexPlus (times3 (Some a)) 1) (Some w1))
           (indexPlus (times3 (Some a)) 2) (Some w2)
         = flatten (acc[nat a := spec_add (acc ! nat a) (Vec3 w0 w1 w2)])"
proof -
  have n0: "nat (a * 3) = 3 * nat a" and n1: "nat (a * 3 + 1) = 3 * nat a + 1"
    and n2: "nat (a * 3 + 2) = 3 * nat a + 2"
    using assms(1) by (simp_all add: nat_mult_distrib nat_add_distrib)
  have lt: "3 * nat a + 2 < length (flatten acc)" using assms(2) by (simp add: length_flatten)
  note nf = nth_flatten [OF assms(2)]
  have "addAt (addAt (addAt (flatten acc) (times3 (Some a)) (Some w0))
                  (indexPlus (times3 (Some a)) 1) (Some w1))
           (indexPlus (times3 (Some a)) 2) (Some w2)
      = (flatten acc)[3 * nat a := Some (vx (acc ! nat a) + w0),
                      3 * nat a + 1 := Some (vy (acc ! nat a) + w1),
                      3 * nat a + 2 := Some (vz (acc ! nat a) + w2)]"
    using assms(1) lt nf by (simp add: addAt_def times3_def indexPlus_def n0 n1 n2)
  also have "\<dots> = flatten (acc[nat a := Vec3 (vx (acc ! nat a) + w0) (vy (acc ! nat a) + w1)
      (vz (acc ! nat a) + w2)])"
    by (rule update_flatten [OF assms(2)])
  finally show ?thesis by (simp add: spec_add_def)
qed

lemma nsqrt_squares: "nsqrt (Some (x * x + y * y + z * z)) = Some (sqrt (x * x + y * y + z * z))"
  by (simp add: not_less)

text \<open>
  The body of the first loop, on the flat arrays of a well-formed mesh, is the step of
  the specification on vectors.
\<close>

lemma accumulateFacet_refines:
  assumes i: "i + 2 < length indices"
    and a: "0 \<le> indices ! i" "nat (indices ! i) < length ps"
    and b: "0 \<le> indices ! (i + 1)" "nat (indices ! (i + 1)) < length ps"
    and c: "0 \<le> indices ! (i + 2)" "nat (indices ! (i + 2)) < length ps"
    and len: "length acc = length ps"
  shows "accumulateFacet (flatten ps) indices i (flatten acc)
       = flatten (spec_addFacet ps
           (nat (indices ! i), nat (indices ! (i + 1)), nat (indices ! (i + 2))) acc)"
proof -
  define A where "A = indices ! i"
  define B where "B = indices ! (i + 1)"
  define C where "C = indices ! (i + 2)"
  have r: "readIndex indices i = Some A" "readIndex indices (i + 1) = Some B"
    "readIndex indices (i + 2) = Some C"
    using i by (simp_all add: readIndex_def A_def B_def C_def)
  have A: "0 \<le> A" "nat A < length ps" using a by (simp_all add: A_def)
  have B: "0 \<le> B" "nat B < length ps" using b by (simp_all add: B_def)
  have C: "0 \<le> C" "nat C < length ps" using c by (simp_all add: C_def)
  define pa where "pa = ps ! nat A"
  define pb where "pb = ps ! nat B"
  define pc where "pc = ps ! nat C"
  note reads = readNum_flatten [OF A, folded pa_def] readNum_flatten [OF B, folded pb_def]
    readNum_flatten [OF C, folded pc_def]
  define n0 where "n0 = (vy pb - vy pa) * (vz pc - vz pa) - (vz pb - vz pa) * (vy pc - vy pa)"
  define n1 where "n1 = (vz pb - vz pa) * (vx pc - vx pa) - (vx pb - vx pa) * (vz pc - vz pa)"
  define n2 where "n2 = (vx pb - vx pa) * (vy pc - vy pa) - (vy pb - vy pa) * (vx pc - vx pa)"
  define L where "L = sqrt (n0 * n0 + n1 * n1 + n2 * n2)"
  define W where "W = Vec3 (n0 * L) (n1 * L) (n2 * L)"
  define acc1 where "acc1 = acc[nat A := spec_add (acc ! nat A) W]"
  define acc2 where "acc2 = acc1[nat B := spec_add (acc1 ! nat B) W]"
  define acc3 where "acc3 = acc2[nat C := spec_add (acc2 ! nat C) W]"
  have step: "accumulateFacet (flatten ps) indices i (flatten acc) =
      addAt (addAt (addAt
        (addAt (addAt (addAt
          (addAt (addAt (addAt (flatten acc)
              (times3 (Some A)) (Some (n0 * L)))
              (indexPlus (times3 (Some A)) 1) (Some (n1 * L)))
              (indexPlus (times3 (Some A)) 2) (Some (n2 * L)))
            (times3 (Some B)) (Some (n0 * L)))
            (indexPlus (times3 (Some B)) 1) (Some (n1 * L)))
            (indexPlus (times3 (Some B)) 2) (Some (n2 * L)))
          (times3 (Some C)) (Some (n0 * L)))
          (indexPlus (times3 (Some C)) 1) (Some (n1 * L)))
          (indexPlus (times3 (Some C)) 2) (Some (n2 * L))"
    unfolding accumulateFacet_def Let_def r reads
    by (simp only: nsub.simps nmul.simps nadd.simps nsqrt_squares n0_def n1_def n2_def L_def)
  have s1: "addAt (addAt (addAt (flatten acc)
              (times3 (Some A)) (Some (n0 * L)))
              (indexPlus (times3 (Some A)) 1) (Some (n1 * L)))
              (indexPlus (times3 (Some A)) 2) (Some (n2 * L)) = flatten acc1"
    unfolding acc1_def W_def using A len by (intro addAt_flatten) simp_all
  have s2: "addAt (addAt (addAt (flatten acc1)
              (times3 (Some B)) (Some (n0 * L)))
              (indexPlus (times3 (Some B)) 1) (Some (n1 * L)))
              (indexPlus (times3 (Some B)) 2) (Some (n2 * L)) = flatten acc2"
    unfolding acc2_def W_def using B len by (intro addAt_flatten) (simp_all add: acc1_def)
  have s3: "addAt (addAt (addAt (flatten acc2)
              (times3 (Some C)) (Some (n0 * L)))
              (indexPlus (times3 (Some C)) 1) (Some (n1 * L)))
              (indexPlus (times3 (Some C)) 2) (Some (n2 * L)) = flatten acc3"
    unfolding acc3_def W_def using C len
    by (intro addAt_flatten) (simp_all add: acc1_def acc2_def)
  have code: "accumulateFacet (flatten ps) indices i (flatten acc) = flatten acc3"
    by (simp only: step s1 s2 s3)
  have W: "spec_contribution pa pb pc = W"
    by (simp add: spec_contribution_def spec_cross_def spec_sub_def spec_scale_def
        spec_length_def Let_def W_def n0_def n1_def n2_def L_def)
  have "spec_addFacet ps (nat A, nat B, nat C) acc = acc3"
    by (simp only: spec_addFacet.simps Let_def W pa_def [symmetric] pb_def [symmetric]
        pc_def [symmetric] acc1_def [symmetric] acc2_def [symmetric] acc3_def [symmetric])
  then show ?thesis by (simp only: code A_def B_def C_def)
qed

section \<open>The first loop\<close>

lemma drop_three:
  assumes "i + 2 < length xs"
  shows "drop i xs = xs ! i # xs ! (i + 1) # xs ! (i + 2) # drop (i + 3) xs"
proof -
  have "drop i xs = xs ! i # drop (Suc i) xs"
    using assms by (simp add: Cons_nth_drop_Suc)
  also have "drop (Suc i) xs = xs ! Suc i # drop (Suc (Suc i)) xs"
    using assms by (simp add: Cons_nth_drop_Suc)
  also have "drop (Suc (Suc i)) xs = xs ! Suc (Suc i) # drop (Suc (Suc (Suc i))) xs"
    using assms by (simp add: Cons_nth_drop_Suc)
  finally show ?thesis by (simp add: numeral_3_eq_3)
qed

lemma length_spec_addFacet: "length (spec_addFacet ps t acc) = length acc"
  by (cases t) (simp add: Let_def)

lemma accumulateFacets_refines:
  "length indices mod 3 = 0 \<Longrightarrow> \<forall>k\<in>set indices. 0 \<le> k \<and> nat k < length ps \<Longrightarrow>
   i mod 3 = 0 \<Longrightarrow> normals = flatten acc \<Longrightarrow> length acc = length ps \<Longrightarrow>
   accumulateFacets (flatten ps) indices i normals
     = flatten (fold (spec_addFacet ps) (triangles (drop i indices)) acc)"
proof (induction "flatten ps" indices i normals arbitrary: acc rule: accumulateFacets.induct)
  case (1 indices i normals)
  show ?case
  proof (cases "i < length indices")
    case False
    then show ?thesis
      using "1.prems" by (subst accumulateFacets.simps) simp
  next
    case True
    have i2: "i + 2 < length indices"
      using True "1.prems"(1,3) by presburger
    let ?A = "indices ! i" and ?B = "indices ! (i + 1)" and ?C = "indices ! (i + 2)"
    have mem: "?A \<in> set indices" "?B \<in> set indices" "?C \<in> set indices"
      using i2 by simp_all
    have rng: "0 \<le> ?A" "nat ?A < length ps" "0 \<le> ?B" "nat ?B < length ps"
      "0 \<le> ?C" "nat ?C < length ps"
      using mem "1.prems"(2) by blast+
    let ?acc = "spec_addFacet ps (nat ?A, nat ?B, nat ?C) acc"
    have step: "accumulateFacet (flatten ps) indices i normals = flatten ?acc"
      unfolding "1.prems"(4)
      using i2 rng "1.prems"(5) by (rule accumulateFacet_refines)
    have len: "length ?acc = length ps"
      using "1.prems"(5) by (simp only: length_spec_addFacet)
    have i3: "(i + 3) mod 3 = 0" using "1.prems"(3) by presburger
    have "accumulateFacets (flatten ps) indices i normals
        = accumulateFacets (flatten ps) indices (i + 3)
            (accumulateFacet (flatten ps) indices i normals)"
      using True by (subst accumulateFacets.simps) simp
    also have "\<dots> = flatten (fold (spec_addFacet ps) (triangles (drop (i + 3) indices)) ?acc)"
      using "1.hyps" [OF True "1.prems"(1,2) i3 step len] .
    also have "\<dots> = flatten (fold (spec_addFacet ps) (triangles (drop i indices)) acc)"
      by (simp add: drop_three [OF i2])
    finally show ?thesis .
  qed
qed

lemma accumulated_refines:
  assumes "length indices mod 3 = 0"
    and "\<forall>k\<in>set indices. 0 \<le> k \<and> nat k < length ps"
  shows "accumulated (flatten ps) indices = flatten (spec_accumulate ps (triangles indices))"
proof -
  have z: "replicate (length (flatten ps)) (Some 0) = flatten (replicate (length ps) (Vec3 0 0 0))"
    by (induction ps) simp_all
  have "accumulateFacets (flatten ps) indices 0 (replicate (length (flatten ps)) (Some 0))
      = flatten (fold (spec_addFacet ps) (triangles (drop 0 indices))
          (replicate (length ps) (Vec3 0 0 0)))"
    using assms by (intro accumulateFacets_refines) (simp_all add: z)
  then show ?thesis by (simp add: accumulated_def spec_accumulate_def)
qed

section \<open>The second loop\<close>

lemma nsqrt_squares_lifted:
  "nsqrt (nadd (nadd (nmul (Some x) (Some x)) (nmul (Some y) (Some y))) (nmul (Some z) (Some z)))
     = Some (sqrt (x * x + y * y + z * z))"
  by (simp add: not_less)

lemma normalizeAt_flatten:
  "normalizeAt (length pre) (pre @ flatten (p # rest))
     = (pre @ spec_normalized p) @ flatten rest"
proof -
  let ?n = "length pre"
  let ?xs = "pre @ Some (vx p) # Some (vy p) # Some (vz p) # flatten rest"
  have rd: "readNum ?xs (Some (int ?n)) = Some (vx p)"
    "readNum ?xs (Some (int ?n + 1)) = Some (vy p)"
    "readNum ?xs (Some (int ?n + 2)) = Some (vz p)"
    by (simp_all add: readNum_def nat_add_distrib nth_append)
  define l where "l = Some (sqrt (vx p * vx p + vy p * vy p + vz p * vz p))"
  have d1: "divAt ?xs ?n l = pre @ ndiv (Some (vx p)) l # Some (vy p) # Some (vz p) # flatten rest"
    by (simp add: divAt_def list_update_append nth_append)
  have d2: "divAt (pre @ ndiv (Some (vx p)) l # Some (vy p) # Some (vz p) # flatten rest) (?n + 1) l
      = pre @ ndiv (Some (vx p)) l # ndiv (Some (vy p)) l # Some (vz p) # flatten rest"
    by (simp add: divAt_def list_update_append nth_append)
  have d3: "divAt (pre @ ndiv (Some (vx p)) l # ndiv (Some (vy p)) l # Some (vz p) # flatten rest)
        (?n + 2) l
      = pre @ ndiv (Some (vx p)) l # ndiv (Some (vy p)) l # ndiv (Some (vz p)) l # flatten rest"
    by (simp add: divAt_def list_update_append nth_append)
  have "normalizeAt ?n ?xs
      = pre @ ndiv (Some (vx p)) l # ndiv (Some (vy p)) l # ndiv (Some (vz p)) l # flatten rest"
    unfolding normalizeAt_def Let_def rd nsqrt_squares_lifted l_def [symmetric]
    by (simp only: d1 d2 d3)
  then show ?thesis by (simp add: spec_normalized_def spec_length_def l_def)
qed

lemma normalizeAll_flatten:
  "normalizeAll (length pre) (pre @ flatten ps) = pre @ concat (map spec_normalized ps)"
proof (induction ps arbitrary: pre)
  case Nil
  show ?case by (subst normalizeAll.simps) simp
next
  case (Cons p ps)
  have lt: "length pre < length (pre @ flatten (p # ps))" by simp
  have l3: "length (pre @ spec_normalized p) = length pre + 3"
    by (simp add: spec_normalized_def)
  have "normalizeAll (length pre) (pre @ flatten (p # ps))
      = normalizeAll (length pre + 3) (normalizeAt (length pre) (pre @ flatten (p # ps)))"
    using lt by (subst normalizeAll.simps) (simp only: if_True)
  also have "\<dots> = normalizeAll (length (pre @ spec_normalized p))
      ((pre @ spec_normalized p) @ flatten ps)"
    by (simp only: normalizeAt_flatten l3)
  also have "\<dots> = (pre @ spec_normalized p) @ concat (map spec_normalized ps)"
    by (rule Cons.IH)
  finally show ?case by simp
qed

lemma getFacetWeightedNormals_flatten:
  assumes "length indices mod 3 = 0"
    and "\<forall>k\<in>set indices. 0 \<le> k \<and> nat k < length ps"
  shows "getFacetWeightedNormals (flatten ps) indices
       = spec_faceWeightedNormals ps (triangles indices)"
proof -
  have "normalizeAll (length ([]::num list)) ([] @ flatten (spec_accumulate ps (triangles indices)))
      = [] @ concat (map spec_normalized (spec_accumulate ps (triangles indices)))"
    by (rule normalizeAll_flatten)
  then show ?thesis
    by (simp add: getFacetWeightedNormals_def accumulated_refines [OF assms]
        spec_faceWeightedNormals_def)
qed

section \<open>Claims about the face-weighted normals\<close>

lemma length_unflatten:
  assumes "None \<notin> set xs" and "length xs mod 3 = 0"
  shows "3 * length (unflatten xs) = length xs"
  using length_flatten [of "unflatten xs"] flatten_unflatten [OF assms] by simp

text \<open>
  C4. On a well-formed mesh (a vertex array of numbers, three per vertex; an index list
  of whole triangles whose indices are vertex numbers) getFacetWeightedNormals computes
  what the face-weighted strategy of the specification describes. The array between its
  two loops holds the accumulators of the strategy: started at zero, one per vertex
  coordinate, and for every consecutive index triple increased, at all three vertices,
  by the cross product of the edges (second minus first, third minus first) scaled by
  its own length. The returned array holds every accumulated vector divided by its own
  length.
\<close>

theorem getFacetWeightedNormals_strategy:
  assumes "length vertices mod 3 = 0" and "None \<notin> set vertices"
    and "length indices mod 3 = 0"
    and "\<forall>k\<in>set indices. 0 \<le> k \<and> 3 * k < int (length vertices)"
  shows "accumulated vertices indices
           = flatten (spec_accumulate (unflatten vertices) (triangles indices))
    \<and> length (accumulated vertices indices) = length vertices
    \<and> getFacetWeightedNormals vertices indices
           = spec_faceWeightedNormals (unflatten vertices) (triangles indices)"
proof -
  let ?ps = "unflatten vertices"
  have fl: "flatten ?ps = vertices" using assms(2,1) by (rule flatten_unflatten)
  have len: "3 * length ?ps = length vertices" using assms(2,1) by (rule length_unflatten)
  have rng: "\<forall>k\<in>set indices. 0 \<le> k \<and> nat k < length ?ps"
  proof
    fix k assume "k \<in> set indices"
    then have "0 \<le> k \<and> 3 * k < int (length vertices)" using assms(4) by blast
    then show "0 \<le> k \<and> nat k < length ?ps" using len by linarith
  qed
  have a: "accumulated (flatten ?ps) indices = flatten (spec_accumulate ?ps (triangles indices))"
    using assms(3) rng by (rule accumulated_refines)
  have g: "getFacetWeightedNormals (flatten ?ps) indices
      = spec_faceWeightedNormals ?ps (triangles indices)"
    using assms(3) rng by (rule getFacetWeightedNormals_flatten)
  have l: "length (accumulated vertices indices) = length vertices"
    by (rule length_accumulated)
  show ?thesis using a g l unfolding fl by (intro conjI)
qed

theorem getFacetWeightedNormals_strategy_witness:
  "length [Some 0, Some 0, Some 0, Some 1, Some 0, Some 0, Some 0, Some 2, Some (0::real)] mod 3 = 0
   \<and> None \<notin> set [Some 0, Some 0, Some 0, Some 1, Some 0, Some 0, Some 0, Some 2, Some (0::real)]
   \<and> length [0, 1, 2 :: int] mod 3 = 0
   \<and> getFacetWeightedNormals
        [Some 0, Some 0, Some 0, Some 1, Some 0, Some 0, Some 0, Some 2, Some 0] [0, 1, 2]
      = [Some 0, Some 0, Some 1, Some 0, Some 0, Some 1, Some 0, Some 0, Some 1]"
proof -
  let ?v = "[Some 0, Some 0, Some 0, Some 1, Some 0, Some 0, Some 0, Some 2, Some (0::real)]"
  have h1: "length ?v mod 3 = 0" and h2: "None \<notin> set ?v" and h3: "length [0, 1, 2 :: int] mod 3 = 0"
    and h4: "\<forall>k\<in>set [0, 1, 2 :: int]. 0 \<le> k \<and> 3 * k < int (length ?v)"
    by simp_all
  note t = getFacetWeightedNormals_strategy [OF h1 h2 h3 h4]
  have acc: "spec_accumulate (unflatten ?v) (triangles [0, 1, 2])
      = [Vec3 0 0 4, Vec3 0 0 4, Vec3 0 0 4]"
    by (simp add: spec_accumulate_def spec_contribution_def spec_cross_def spec_sub_def
        spec_scale_def spec_length_def spec_add_def Let_def numeral_eq_Suc)
  have "spec_faceWeightedNormals (unflatten ?v) (triangles [0, 1, 2])
      = [Some 0, Some 0, Some 1, Some 0, Some 0, Some 1, Some 0, Some 0, Some 1]"
    unfolding spec_faceWeightedNormals_def acc
    by (simp add: spec_normalized_def spec_length_def)
  then show ?thesis using t h1 h2 h3 by simp
qed

lemma block_flatten:
  "k < length ps \<Longrightarrow>
   take 3 (drop (3 * k) (flatten ps)) = [Some (vx (ps ! k)), Some (vy (ps ! k)), Some (vz (ps ! k))]"
proof (induction ps arbitrary: k)
  case Nil
  then show ?case by simp
next
  case (Cons p ps)
  show ?case
  proof (cases k)
    case 0
    then show ?thesis by simp
  next
    case (Suc m)
    then have m: "m < length ps" using Cons.prems by simp
    have e: "3 * Suc m = Suc (Suc (Suc (3 * m)))" by simp
    have "drop (3 * Suc m) (flatten (p # ps)) = drop (3 * m) (flatten ps)"
      by (simp only: e flatten.simps drop_Suc_Cons)
    then show ?thesis using Cons.IH [OF m] by (simp only: Suc nth_Cons_Suc)
  qed
qed

lemma length_spec_normalized: "length (spec_normalized p) = 3"
  by (simp add: spec_normalized_def)

lemma block_normalized:
  "k < length ps \<Longrightarrow>
   take 3 (drop (3 * k) (concat (map spec_normalized ps))) = spec_normalized (ps ! k)"
proof (induction ps arbitrary: k)
  case Nil
  then show ?case by simp
next
  case (Cons p ps)
  show ?case
  proof (cases k)
    case 0
    then show ?thesis by (simp add: length_spec_normalized)
  next
    case (Suc m)
    then have m: "m < length ps" using Cons.prems by simp
    have e: "3 * Suc m = 3 + 3 * m" by simp
    show ?thesis using Cons.IH [OF m]
      by (simp add: Suc e length_spec_normalized del: mult_Suc_right)
  qed
qed

lemma squares_zero_iff:
  "x * x + y * y + z * z = 0 \<longleftrightarrow> x = 0 \<and> y = 0 \<and> z = 0" for x y z :: real
proof
  assume s: "x * x + y * y + z * z = 0"
  have "0 \<le> x * x" "0 \<le> y * y" "0 \<le> z * z" by simp_all
  with s have "x * x = 0" "y * y = 0" "z * z = 0" by linarith+
  then show "x = 0 \<and> y = 0 \<and> z = 0" by simp
qed simp

lemma spec_normalized_cases:
  "spec_normalized (Vec3 x y z) =
     (if x = 0 \<and> y = 0 \<and> z = 0 then [None, None, None]
      else [Some (x / sqrt (x * x + y * y + z * z)),
            Some (y / sqrt (x * x + y * y + z * z)),
            Some (z / sqrt (x * x + y * y + z * z))])"
proof -
  have "sqrt (x * x + y * y + z * z) = 0 \<longleftrightarrow> x = 0 \<and> y = 0 \<and> z = 0"
    by (simp only: real_sqrt_eq_zero_cancel_iff squares_zero_iff)
  then show ?thesis
    by (simp add: spec_normalized_def spec_length_def)
qed

lemma unit_after_division:
  fixes x y z :: real
  assumes "\<not> (x = 0 \<and> y = 0 \<and> z = 0)"
  shows "sqrt ((x / sqrt (x * x + y * y + z * z)) * (x / sqrt (x * x + y * y + z * z))
             + (y / sqrt (x * x + y * y + z * z)) * (y / sqrt (x * x + y * y + z * z))
             + (z / sqrt (x * x + y * y + z * z)) * (z / sqrt (x * x + y * y + z * z))) = 1"
proof -
  define s where "s = x * x + y * y + z * z"
  have nz: "s \<noteq> 0" using assms by (simp only: s_def squares_zero_iff) simp
  have pos: "0 \<le> s" by (simp add: s_def)
  have sq: "sqrt s * sqrt s = s" using pos by simp
  have "(x / sqrt s) * (x / sqrt s) + (y / sqrt s) * (y / sqrt s) + (z / sqrt s) * (z / sqrt s)
      = (x * x + y * y + z * z) / (sqrt s * sqrt s)"
    by (simp add: add_divide_distrib)
  also have "\<dots> = 1" using nz by (simp only: sq) (simp add: s_def)
  finally show ?thesis by (simp add: s_def)
qed

section \<open>The generated mesh is well formed\<close>

lemma getVertices_numbers:
  assumes "su \<noteq> 0" and "sv \<noteq> 0"
  shows "None \<notin> set (getVertices (Some radius) (Some a) (Some n) su sv)"
  unfolding getVertices_concat using assms by (auto simp: vertexAt_position)

lemma getIndices_in_range:
  assumes "x \<in> set (getIndices su sv)"
  shows "0 \<le> x \<and> 3 * x < int (length (getVertices radius a n su sv))"
proof -
  obtain i j where ij: "i < nat su" "j < nat sv" and x: "x \<in> set (cellIndices sv i j)"
    using set_getIndices [OF assms] by blast
  have b: "0 \<le> x \<and> x < (su + 1) * (sv + 1)" using ij x by (rule cellIndices_bounds)
  have "0 \<le> su" "0 \<le> sv" using ij by simp_all
  then have "int (length (getVertices radius a n su sv)) = 3 * ((su + 1) * (sv + 1))"
    by (simp add: length_getVertices)
  then show ?thesis using b by simp
qed

lemma cell_in_getIndices:
  assumes "i < nat su" and "j < nat sv" and "x \<in> set (cellIndices sv i j)"
  shows "x \<in> set (getIndices su sv)"
proof -
  have "x \<in> set (take 6 (drop (6 * (i * nat sv + j)) (getIndices su sv)))"
    using assms(3) by (simp only: block_getIndices [OF assms(1,2)])
  then show ?thesis by (meson in_set_dropD in_set_takeD)
qed

text \<open>Every vertex of the grid is a corner of some triangle.\<close>

lemma vertex_in_getIndices:
  assumes su: "1 \<le> su" and sv: "1 \<le> sv" and k: "k < nat ((su + 1) * (sv + 1))"
  shows "int k \<in> set (getIndices su sv)"
proof -
  define m where "m = nat (sv + 1)"
  define i where "i = k div m"
  define j where "j = k mod m"
  have m: "0 < m" "int m = sv + 1" using sv by (simp_all add: m_def)
  have kk: "k = i * m + j" by (simp add: i_def j_def)
  have j: "j < m" using m by (simp add: j_def)
  have "nat ((su + 1) * (sv + 1)) = nat (su + 1) * m"
    using su sv by (simp add: m_def nat_mult_distrib)
  then have "k < nat (su + 1) * m" using k by simp
  then have i: "i < nat (su + 1)" using m by (simp add: i_def less_mult_imp_div_less)
  define i' where "i' = min i (nat su - 1)"
  define j' where "j' = min j (nat sv - 1)"
  have i': "i' < nat su" and j': "j' < nat sv" using su sv by (simp_all add: i'_def j'_def)
  have di: "i = i' \<or> i = i' + 1" using i su by (auto simp: i'_def min_def)
  have dj: "j = j' \<or> j = j' + 1" using j sv by (auto simp: j'_def min_def m_def)
  have "int k = int i * (sv + 1) + int j" using kk m by simp
  then have "int k \<in> set (cellIndices sv i' j')"
    using di dj by (auto simp: cellIndices_def Let_def algebra_simps)
  with i' j' show ?thesis by (rule cell_in_getIndices)
qed

text \<open>
  C5, as the claim states it, fails. With radius 0 and amplitude 0 (segmentsU =
  segmentsV = 1) every vertex is the origin, every cross product is zero, and every
  accumulator is zero after the first loop. The second loop has no guard: it divides
  0 by 0, and every entry of the uploaded normal array is NaN, not a coordinate of a
  unit vector.
\<close>

theorem unit_normals_counterexample:
  "accumulated (getVertices (Some 0) (Some 0) (Some 0) 1 1) (getIndices 1 1)
     = [Some 0, Some 0, Some 0, Some 0, Some 0, Some 0,
        Some 0, Some 0, Some 0, Some 0, Some 0, Some 0]
   \<and> normalBuffer (bufferData (Some 0) (Some 0) (Some 0) 1 1)
     = [None, None, None, None, None, None, None, None, None, None, None, None]"
proof -
  let ?Z = "[Some 0, Some 0, Some 0, Some 0, Some 0, Some 0,
             Some 0, Some 0, Some 0, Some 0, Some 0, Some (0::real)]"
  let ?I = "[0, 2, 1, 1, 2, 3 :: int]"
  have v: "getVertices (Some 0) (Some 0) (Some 0) 1 1 = ?Z"
    by (simp add: getVertices_def Let_def upt_rec ofNat_def ofInt_def)
  have g: "getIndices 1 1 = ?I"
    by (simp add: getIndices_def Let_def upt_rec)
  have f0: "accumulateFacet ?Z ?I 0 ?Z = ?Z"
    apply (simp add: accumulateFacet_def readIndex_def times3_def indexPlus_def readNum_def Let_def)
    apply (simp add: addAt_def numeral_eq_Suc)
    done
  have f3: "accumulateFacet ?Z ?I 3 ?Z = ?Z"
    apply (simp add: accumulateFacet_def readIndex_def times3_def indexPlus_def readNum_def Let_def)
    apply (simp add: addAt_def numeral_eq_Suc)
    done
  have "accumulateFacets ?Z ?I 0 ?Z = accumulateFacets ?Z ?I 3 ?Z"
    by (subst accumulateFacets.simps) (simp add: f0)
  also have "\<dots> = accumulateFacets ?Z ?I 6 ?Z"
    by (subst accumulateFacets.simps) (simp add: f3)
  also have "\<dots> = ?Z"
    by (subst accumulateFacets.simps) simp
  finally have acc: "accumulated ?Z ?I = ?Z"
    by (simp add: accumulated_def)
  have n0: "normalizeAt 0 ?Z = [None, None, None, Some 0, Some 0, Some 0,
      Some 0, Some 0, Some 0, Some 0, Some 0, Some 0]"
    by (simp add: normalizeAt_def readNum_def divAt_def Let_def numeral_eq_Suc)
  have n3: "normalizeAt 3 [None, None, None, Some 0, Some 0, Some 0,
      Some 0, Some 0, Some 0, Some 0, Some 0, Some 0]
      = [None, None, None, None, None, None, Some 0, Some 0, Some 0, Some 0, Some 0, Some 0]"
    by (simp add: normalizeAt_def readNum_def divAt_def Let_def numeral_eq_Suc)
  have n6: "normalizeAt 6 [None, None, None, None, None, None,
      Some 0, Some 0, Some 0, Some 0, Some 0, Some 0]
      = [None, None, None, None, None, None, None, None, None, Some 0, Some 0, Some 0]"
    by (simp add: normalizeAt_def readNum_def divAt_def Let_def numeral_eq_Suc)
  have n9: "normalizeAt 9 [None, None, None, None, None, None,
      None, None, None, Some 0, Some 0, Some 0]
      = [None, None, None, None, None, None, None, None, None, None, None, None]"
    by (simp add: normalizeAt_def readNum_def divAt_def Let_def numeral_eq_Suc)
  have "normalizeAll 0 ?Z = normalizeAll 3 [None, None, None, Some 0, Some 0, Some 0,
      Some 0, Some 0, Some 0, Some 0, Some 0, Some 0]"
    by (subst normalizeAll.simps) (simp add: n0)
  also have "\<dots> = normalizeAll 6 [None, None, None, None, None, None,
      Some 0, Some 0, Some 0, Some 0, Some 0, Some 0]"
    by (subst normalizeAll.simps) (simp add: n3)
  also have "\<dots> = normalizeAll 9 [None, None, None, None, None, None,
      None, None, None, Some 0, Some 0, Some 0]"
    by (subst normalizeAll.simps) (simp add: n6)
  also have "\<dots> = normalizeAll 12 [None, None, None, None, None, None,
      None, None, None, None, None, None]"
    by (subst normalizeAll.simps) (simp add: n9)
  also have "\<dots> = [None, None, None, None, None, None, None, None, None, None, None, None]"
    by (subst normalizeAll.simps) simp
  finally have nrm: "normalizeAll 0 ?Z
      = [None, None, None, None, None, None, None, None, None, None, None, None]" .
  show ?thesis
    by (simp add: bufferData_def Let_def Float32Array_def getFacetWeightedNormals_def v g acc nrm)
qed

section \<open>The second loop, block by block\<close>

lemma normalizeAt_block:
  "normalizeAt (length pre) (pre @ nx # ny # nz # rest)
     = pre @ take 3 (normalizeBlocks [nx, ny, nz]) @ rest"
proof -
  let ?n = "length pre"
  let ?xs = "pre @ nx # ny # nz # rest"
  have rd: "readNum ?xs (Some (int ?n)) = nx"
    "readNum ?xs (Some (int ?n + 1)) = ny"
    "readNum ?xs (Some (int ?n + 2)) = nz"
    by (simp_all add: readNum_def nat_add_distrib nth_append)
  define l where "l = nsqrt (nadd (nadd (nmul nx nx) (nmul ny ny)) (nmul nz nz))"
  have d1: "divAt ?xs ?n l = pre @ ndiv nx l # ny # nz # rest"
    by (simp add: divAt_def list_update_append nth_append)
  have d2: "divAt (pre @ ndiv nx l # ny # nz # rest) (?n + 1) l
      = pre @ ndiv nx l # ndiv ny l # nz # rest"
    by (simp add: divAt_def list_update_append nth_append)
  have d3: "divAt (pre @ ndiv nx l # ndiv ny l # nz # rest) (?n + 2) l
      = pre @ ndiv nx l # ndiv ny l # ndiv nz l # rest"
    by (simp add: divAt_def list_update_append nth_append)
  have "normalizeAt ?n ?xs = pre @ ndiv nx l # ndiv ny l # ndiv nz l # rest"
    unfolding normalizeAt_def Let_def rd l_def [symmetric]
    by (simp only: d1 d2 d3)
  then show ?thesis by (simp add: Let_def l_def)
qed

lemma normalizeAt_short:
  "normalizeAt (length pre) (pre @ [nx, ny]) = pre @ [None, None]"
  "normalizeAt (length pre) (pre @ [nx]) = pre @ [None]"
proof -
  have "readNum (pre @ [nx, ny]) (Some (int (length pre) + 2)) = None"
    by (simp add: readNum_def nat_add_distrib)
  then have l: "nsqrt (nadd (nadd (nmul (readNum (pre @ [nx, ny]) (Some (int (length pre))))
        (readNum (pre @ [nx, ny]) (Some (int (length pre)))))
      (nmul (readNum (pre @ [nx, ny]) (Some (int (length pre) + 1)))
        (readNum (pre @ [nx, ny]) (Some (int (length pre) + 1)))))
      (nmul (readNum (pre @ [nx, ny]) (Some (int (length pre) + 2)))
        (readNum (pre @ [nx, ny]) (Some (int (length pre) + 2))))) = None"
    by (cases "nadd (nmul (readNum (pre @ [nx, ny]) (Some (int (length pre))))
        (readNum (pre @ [nx, ny]) (Some (int (length pre)))))
      (nmul (readNum (pre @ [nx, ny]) (Some (int (length pre) + 1)))
        (readNum (pre @ [nx, ny]) (Some (int (length pre) + 1))))") simp_all
  have n: "ndiv x None = None" for x by (cases x) simp_all
  show "normalizeAt (length pre) (pre @ [nx, ny]) = pre @ [None, None]"
    unfolding normalizeAt_def Let_def l
    by (simp add: divAt_def n list_update_append nth_append)
next
  have "readNum (pre @ [nx]) (Some (int (length pre) + 2)) = None"
    by (simp add: readNum_def nat_add_distrib)
  then have l: "nsqrt (nadd (nadd (nmul (readNum (pre @ [nx]) (Some (int (length pre))))
        (readNum (pre @ [nx]) (Some (int (length pre)))))
      (nmul (readNum (pre @ [nx]) (Some (int (length pre) + 1)))
        (readNum (pre @ [nx]) (Some (int (length pre) + 1)))))
      (nmul (readNum (pre @ [nx]) (Some (int (length pre) + 2)))
        (readNum (pre @ [nx]) (Some (int (length pre) + 2))))) = None"
    by (cases "nadd (nmul (readNum (pre @ [nx]) (Some (int (length pre))))
        (readNum (pre @ [nx]) (Some (int (length pre)))))
      (nmul (readNum (pre @ [nx]) (Some (int (length pre) + 1)))
        (readNum (pre @ [nx]) (Some (int (length pre) + 1))))") simp_all
  have n: "ndiv x None = None" for x by (cases x) simp_all
  show "normalizeAt (length pre) (pre @ [nx]) = pre @ [None]"
    unfolding normalizeAt_def Let_def l
    by (simp add: divAt_def n list_update_append nth_append)
qed

lemma normalizeAll_blocks:
  "normalizeAll (length pre) (pre @ normals) = pre @ normalizeBlocks normals"
proof (induction normals arbitrary: pre rule: normalizeBlocks.induct)
  case (1 nx ny nz rest)
  let ?b = "take 3 (normalizeBlocks [nx, ny, nz])"
  have lb: "length (pre @ ?b) = length pre + 3" by (simp add: Let_def)
  have "normalizeAll (length pre) (pre @ nx # ny # nz # rest)
      = normalizeAll (length pre + 3) (normalizeAt (length pre) (pre @ nx # ny # nz # rest))"
    by (subst normalizeAll.simps) simp
  also have "\<dots> = normalizeAll (length (pre @ ?b)) ((pre @ ?b) @ rest)"
    by (simp only: normalizeAt_block lb append_assoc)
  also have "\<dots> = (pre @ ?b) @ normalizeBlocks rest"
    by (rule "1.IH") (rule refl)
  finally show ?case by (simp add: Let_def)
next
  case (2 nx ny)
  have "normalizeAll (length pre) (pre @ [nx, ny])
      = normalizeAll (length pre + 3) (pre @ [None, None])"
    by (subst normalizeAll.simps) (simp add: normalizeAt_short)
  also have "\<dots> = pre @ [None, None]"
    by (subst normalizeAll.simps) simp
  finally show ?case by simp
next
  case (3 nx)
  have "normalizeAll (length pre) (pre @ [nx])
      = normalizeAll (length pre + 3) (pre @ [None])"
    by (subst normalizeAll.simps) (simp add: normalizeAt_short)
  also have "\<dots> = pre @ [None]"
    by (subst normalizeAll.simps) simp
  finally show ?case by simp
next
  case 4
  show ?case by (subst normalizeAll.simps) simp
qed

lemma block_normalizeBlocks:
  "take 3 (drop (3 * m) normals) = [nx, ny, nz] \<Longrightarrow>
   take 3 (drop (3 * m) (normalizeBlocks normals)) = normalizeBlocks [nx, ny, nz]"
proof (induction m arbitrary: normals)
  case 0
  then obtain rest where "normals = nx # ny # nz # rest"
    by (cases normals rule: normalizeBlocks.cases) auto
  then show ?case by (simp add: Let_def)
next
  case (Suc m)
  have e: "3 * Suc m = Suc (Suc (Suc (3 * m)))" by simp
  from Suc.prems obtain u v w rest where n: "normals = u # v # w # rest"
    by (cases normals rule: normalizeBlocks.cases) (auto simp: e)
  have "take 3 (drop (3 * m) rest) = [nx, ny, nz]"
    using Suc.prems by (simp only: n e drop_Suc_Cons)
  then have "take 3 (drop (3 * m) (normalizeBlocks rest)) = normalizeBlocks [nx, ny, nz]"
    by (rule Suc.IH)
  then show ?case by (simp only: n e normalizeBlocks.simps Let_def drop_Suc_Cons)
qed

lemma normalizeBlocks_numbers:
  "normalizeBlocks [Some x, Some y, Some z] = spec_normalized (Vec3 x y z)"
  by (simp add: spec_normalized_def spec_length_def not_less)

lemma block_normalizeAll:
  assumes "take 3 (drop (3 * m) normals) = [Some x, Some y, Some z]"
  shows "take 3 (drop (3 * m) (normalizeAll 0 normals)) = spec_normalized (Vec3 x y z)"
proof -
  have "normalizeAll (length ([]::num list)) ([] @ normals) = [] @ normalizeBlocks normals"
    by (rule normalizeAll_blocks)
  then have "normalizeAll 0 normals = normalizeBlocks normals" by simp
  then show ?thesis
    using block_normalizeBlocks [OF assms] by (simp only: normalizeBlocks_numbers)
qed

section \<open>The accumulators of a generated mesh\<close>

lemma generated_mesh_refines:
  assumes "1 \<le> su" and "1 \<le> sv"
  shows "accumulated (getVertices (Some radius) (Some a) (Some n) su sv) (getIndices su sv)
       = flatten (spec_accumulate
           (unflatten (getVertices (Some radius) (Some a) (Some n) su sv))
           (triangles (getIndices su sv)))"
    and "flatten (unflatten (getVertices (Some radius) (Some a) (Some n) su sv))
       = getVertices (Some radius) (Some a) (Some n) su sv"
    and "\<forall>x\<in>set (getIndices su sv).
           0 \<le> x \<and> nat x < length (unflatten (getVertices (Some radius) (Some a) (Some n) su sv))"
    and "length (unflatten (getVertices (Some radius) (Some a) (Some n) su sv))
       = nat ((su + 1) * (sv + 1))"
proof -
  let ?V = "getVertices (Some radius) (Some a) (Some n) su sv"
  let ?I = "getIndices su sv"
  let ?ps = "unflatten ?V"
  have nz: "su \<noteq> 0" "sv \<noteq> 0" using assms by simp_all
  have h1: "length ?V mod 3 = 0" by (simp add: length_getVertices)
  have h2: "None \<notin> set ?V" using nz by (rule getVertices_numbers)
  have h3: "length ?I mod 3 = 0" by (simp add: length_getIndices)
  show fl: "flatten ?ps = ?V" using h2 h1 by (rule flatten_unflatten)
  have l3: "3 * length ?ps = length ?V" using h2 h1 by (rule length_unflatten)
  have "length ?V = 3 * nat ((su + 1) * (sv + 1))"
    using assms by (simp add: length_getVertices nat_mult_distrib)
  then show "length ?ps = nat ((su + 1) * (sv + 1))" using l3 by simp
  show rng: "\<forall>x\<in>set ?I. 0 \<le> x \<and> nat x < length ?ps"
  proof
    fix x assume "x \<in> set ?I"
    then have "0 \<le> x \<and> 3 * x < int (length ?V)" by (rule getIndices_in_range)
    then show "0 \<le> x \<and> nat x < length ?ps" using l3 by linarith
  qed
  show "accumulated ?V ?I = flatten (spec_accumulate ?ps (triangles ?I))"
    using accumulated_refines [OF h3 rng] by (simp only: fl)
qed

lemma triangles_in_range:
  "\<forall>x\<in>set indices. 0 \<le> x \<and> nat x < m \<Longrightarrow>
   \<forall>t\<in>set (triangles indices). fst t < m \<and> fst (snd t) < m \<and> snd (snd t) < m"
  by (induction indices rule: triangles.induct) auto

text \<open>If every vertex is the origin, every accumulator stays zero.\<close>

lemma spec_contribution_origin:
  "spec_contribution (Vec3 0 0 0) (Vec3 0 0 0) (Vec3 0 0 0) = Vec3 0 0 0"
  by (simp add: spec_contribution_def spec_cross_def spec_sub_def spec_scale_def Let_def)

lemma spec_addFacet_origin:
  assumes ps: "\<forall>p\<in>set ps. p = Vec3 0 0 0"
    and t: "fst t < length ps \<and> fst (snd t) < length ps \<and> snd (snd t) < length ps"
    and acc: "\<forall>v\<in>set acc. v = Vec3 0 0 0" and len: "length acc = length ps"
  shows "spec_addFacet ps t acc = acc"
proof -
  obtain a b c where abc: "t = (a, b, c)" by (cases t) auto
  have lt: "a < length ps" "b < length ps" "c < length ps" using t abc by simp_all
  have p: "ps ! a = Vec3 0 0 0" "ps ! b = Vec3 0 0 0" "ps ! c = Vec3 0 0 0"
    using ps lt by (simp_all add: nth_mem)
  have v: "acc ! a = Vec3 0 0 0" "acc ! b = Vec3 0 0 0" "acc ! c = Vec3 0 0 0"
    using acc lt len by (simp_all add: nth_mem)
  have z: "spec_add (Vec3 0 0 0) (Vec3 0 0 0) = Vec3 0 0 0" by (simp add: spec_add_def)
  have u: "acc[a := Vec3 0 0 0] = acc" "acc[b := Vec3 0 0 0] = acc" "acc[c := Vec3 0 0 0] = acc"
    using v by (metis list_update_id)+
  show ?thesis
    by (simp add: abc Let_def p spec_contribution_origin v z u)
qed

lemma fold_spec_addFacet_origin:
  "\<forall>p\<in>set ps. p = Vec3 0 0 0 \<Longrightarrow>
   \<forall>t\<in>set ts. fst t < length ps \<and> fst (snd t) < length ps \<and> snd (snd t) < length ps \<Longrightarrow>
   \<forall>v\<in>set acc. v = Vec3 0 0 0 \<Longrightarrow> length acc = length ps \<Longrightarrow>
   fold (spec_addFacet ps) ts acc = acc"
  by (induction ts) (simp_all add: spec_addFacet_origin)

lemma spec_accumulate_origin:
  assumes "\<forall>p\<in>set ps. p = Vec3 0 0 0"
    and "\<forall>t\<in>set ts. fst t < length ps \<and> fst (snd t) < length ps \<and> snd (snd t) < length ps"
  shows "spec_accumulate ps ts = replicate (length ps) (Vec3 0 0 0)"
  unfolding spec_accumulate_def using assms by (intro fold_spec_addFacet_origin) simp_all

lemma flatten_origin:
  "set (flatten ps) \<subseteq> {Some 0} \<Longrightarrow> \<forall>p\<in>set ps. p = Vec3 0 0 0"
  by (induction ps) (auto simp: vec3.expand)

lemma getVertices_origin:
  assumes "su \<noteq> 0" and "sv \<noteq> 0"
  shows "set (getVertices (Some 0) (Some 0) (Some n) su sv) \<subseteq> {Some 0}"
  unfolding getVertices_concat using assms
  by (auto simp: vertexAt_position spec_position_def)

lemma origin_mesh:
  assumes "1 \<le> su" and "1 \<le> sv" and k: "k < nat ((su + 1) * (sv + 1))"
  shows "take 3 (drop (3 * k)
           (accumulated (getVertices (Some 0) (Some 0) (Some n) su sv) (getIndices su sv)))
         = [Some 0, Some 0, Some 0]"
    and "take 3 (drop (3 * k) (normalBuffer (bufferData (Some 0) (Some 0) (Some n) su sv)))
         = [None, None, None]"
proof -
  let ?V = "getVertices (Some 0) (Some 0) (Some n) su sv"
  let ?I = "getIndices su sv"
  let ?ps = "unflatten ?V"
  note g = generated_mesh_refines [OF assms(1,2), of 0 0 n]
  have nz: "su \<noteq> 0" "sv \<noteq> 0" using assms by simp_all
  have "set (flatten ?ps) \<subseteq> {Some 0}"
    using getVertices_origin [OF nz, of n] by (simp only: g(2))
  then have ps: "\<forall>p\<in>set ?ps. p = Vec3 0 0 0" by (rule flatten_origin)
  have ts: "\<forall>t\<in>set (triangles ?I).
      fst t < length ?ps \<and> fst (snd t) < length ?ps \<and> snd (snd t) < length ?ps"
    using g(3) by (rule triangles_in_range)
  have acc: "accumulated ?V ?I = flatten (replicate (length ?ps) (Vec3 0 0 0))"
    using spec_accumulate_origin [OF ps ts] by (simp only: g(1))
  have kk: "k < length (replicate (length ?ps) (Vec3 0 0 0))"
    using k by (simp add: g(4))
  show a: "take 3 (drop (3 * k) (accumulated ?V ?I)) = [Some 0, Some 0, Some 0]"
    using block_flatten [OF kk] kk by (simp add: acc)
  have "take 3 (drop (3 * k) (normalizeAll 0 (accumulated ?V ?I)))
      = spec_normalized (Vec3 0 0 0)"
    using a by (rule block_normalizeAll)
  then show "take 3 (drop (3 * k) (normalBuffer (bufferData (Some 0) (Some 0) (Some n) su sv)))
         = [None, None, None]"
    by (simp add: bufferData_def Let_def Float32Array_def getFacetWeightedNormals_def
        spec_normalized_cases)
qed

section \<open>A mesh of two by two cells\<close>

lemma sqrt_16: "sqrt 16 = (4::real)"
  by (rule real_sqrt_unique) simp_all

lemma unit_radius_mesh:
  "take 9 (accumulated (getVertices (Some 1) (Some 0) (Some 0) 2 2) (getIndices 2 2))
     = [Some 0, Some 4, Some 0, Some 0, Some 4, Some 0, Some 0, Some 4, Some 0]"
  "take 9 (normalBuffer (bufferData (Some 1) (Some 0) (Some 0) 2 2))
     = [Some 0, Some 1, Some 0, Some 0, Some 1, Some 0, Some 0, Some 1, Some 0]"
  "drop 18 (accumulated (getVertices (Some 1) (Some 0) (Some 0) 2 2) (getIndices 2 2))
     = [Some 0, Some (- 4), Some 0, Some 0, Some (- 4), Some 0, Some 0, Some (- 4), Some 0]"
  "drop 18 (normalBuffer (bufferData (Some 1) (Some 0) (Some 0) 2 2))
     = [Some 0, Some (- 1), Some 0, Some 0, Some (- 1), Some 0, Some 0, Some (- 1), Some 0]"
proof -
  let ?V = "getVertices (Some 1) (Some 0) (Some 0) 2 2"
  let ?I = "getIndices 2 2"
  have h: "(1::int) \<le> 2" by simp
  have v: "?V = [Some 1, Some 0, Some 0, Some 0, Some 0, Some 1, Some (- 1), Some 0, Some 0,
                 Some (- 1), Some 0, Some 0, Some 0, Some 0, Some 1, Some 1, Some 0, Some 0,
                 Some 1, Some 0, Some 0, Some 0, Some 0, Some 1, Some (- 1), Some 0, Some 0]"
    by (simp add: getVertices_def Let_def upt_rec ofNat_def ofInt_def)
  have i: "?I = [0, 3, 1, 1, 3, 4, 1, 4, 2, 2, 4, 5, 3, 6, 4, 4, 6, 7, 4, 7, 5, 5, 7, 8]"
    by (simp add: getIndices_def Let_def upt_rec)
  have ps: "unflatten ?V =
      [Vec3 1 0 0, Vec3 0 0 1, Vec3 (- 1) 0 0, Vec3 (- 1) 0 0, Vec3 0 0 1, Vec3 1 0 0,
       Vec3 1 0 0, Vec3 0 0 1, Vec3 (- 1) 0 0]"
    by (simp add: v)
  have ts: "triangles ?I =
      [(0, 3, 1), (1, 3, 4), (1, 4, 2), (2, 4, 5), (3, 6, 4), (4, 6, 7), (4, 7, 5), (5, 7, 8)]"
    by (simp add: i)
  have acc: "spec_accumulate (unflatten ?V) (triangles ?I) =
      [Vec3 0 4 0, Vec3 0 4 0, Vec3 0 4 0, Vec3 0 0 0, Vec3 0 0 0, Vec3 0 0 0,
       Vec3 0 (- 4) 0, Vec3 0 (- 4) 0, Vec3 0 (- 4) 0]"
    unfolding ps ts
    by (simp add: spec_accumulate_def spec_contribution_def spec_cross_def spec_sub_def
        spec_scale_def spec_length_def spec_add_def Let_def numeral_eq_Suc)
  have a: "accumulated ?V ?I =
      [Some 0, Some 4, Some 0, Some 0, Some 4, Some 0, Some 0, Some 4, Some 0,
       Some 0, Some 0, Some 0, Some 0, Some 0, Some 0, Some 0, Some 0, Some 0,
       Some 0, Some (- 4), Some 0, Some 0, Some (- 4), Some 0, Some 0, Some (- 4), Some 0]"
    using generated_mesh_refines(1) [OF h h, of 1 0 0] by (simp add: acc)
  show "take 9 (accumulated ?V ?I)
     = [Some 0, Some 4, Some 0, Some 0, Some 4, Some 0, Some 0, Some 4, Some 0]"
    by (simp add: a)
  show "drop 18 (accumulated ?V ?I)
     = [Some 0, Some (- 4), Some 0, Some 0, Some (- 4), Some 0, Some 0, Some (- 4), Some 0]"
    by (simp add: a)
  have "normalizeAll (length ([]::num list)) ([] @ accumulated ?V ?I)
      = [] @ normalizeBlocks (accumulated ?V ?I)"
    by (rule normalizeAll_blocks)
  then have g: "getFacetWeightedNormals ?V ?I = normalizeBlocks (accumulated ?V ?I)"
    by (simp add: getFacetWeightedNormals_def)
  have nb: "normalBuffer (bufferData (Some 1) (Some 0) (Some 0) 2 2)
      = [Some 0, Some 1, Some 0, Some 0, Some 1, Some 0, Some 0, Some 1, Some 0,
         None, None, None, None, None, None, None, None, None,
         Some 0, Some (- 1), Some 0, Some 0, Some (- 1), Some 0, Some 0, Some (- 1), Some 0]"
    by (simp add: bufferData_def Let_def Float32Array_def g a sqrt_16)
  show "take 9 (normalBuffer (bufferData (Some 1) (Some 0) (Some 0) 2 2))
     = [Some 0, Some 1, Some 0, Some 0, Some 1, Some 0, Some 0, Some 1, Some 0]"
    by (simp add: nb)
  show "drop 18 (normalBuffer (bufferData (Some 1) (Some 0) (Some 0) 2 2))
     = [Some 0, Some (- 1), Some 0, Some 0, Some (- 1), Some 0, Some 0, Some (- 1), Some 0]"
    by (simp add: nb)
qed

text \<open>
  C5, amended. For segment counts of at least 1 every vertex is a corner of at least one
  triangle, so no accumulator is left untouched. The array that getFacetWeightedNormals
  returns is the accumulator array after the second loop, and this loop divides every
  accumulated vector by its own length without a guard. A vertex whose accumulated
  vector, as the array holds it, is a non-zero vector of numbers gets this vector divided
  by its length, which has length 1; a vertex whose accumulated vector is zero gets
  three NaN. The zero case is reachable: with radius 0 and amplitude 0 every accumulated
  vector is zero and every returned coordinate is NaN, for all segment counts of at
  least 1 and every wave count. The unit case is reached as well: with radius 1,
  amplitude 0 and two by two segments the first three vertices accumulate (0, 4, 0) and
  get the normal (0, 1, 0), the last three accumulate (0, -4, 0) and get (0, -1, 0).
\<close>

theorem unguarded_normalization:
  assumes "1 \<le> su" and "1 \<le> sv" and "k < nat ((su + 1) * (sv + 1))"
    and "take 3 (drop (3 * m) normals) = [Some x, Some y, Some z]"
    and "float32 x" and "float32 y" and "float32 z"
  shows "int k \<in> set (getIndices su sv)
    \<and> getFacetWeightedNormals vertices indices = normalizeAll 0 (accumulated vertices indices)
    \<and> (let l = sqrt (x * x + y * y + z * z);
            N = take 3 (drop (3 * m) (normalizeAll 0 normals))
        in if x = 0 \<and> y = 0 \<and> z = 0 then N = [None, None, None]
           else N = [Some (x / l), Some (y / l), Some (z / l)]
                \<and> sqrt ((x / l) * (x / l) + (y / l) * (y / l) + (z / l) * (z / l)) = 1)
    \<and> take 3 (drop (3 * k)
         (accumulated (getVertices (Some 0) (Some 0) (Some n) su sv) (getIndices su sv)))
        = [Some 0, Some 0, Some 0]
    \<and> take 3 (drop (3 * k) (normalBuffer (bufferData (Some 0) (Some 0) (Some n) su sv)))
        = [None, None, None]
    \<and> take 9 (accumulated (getVertices (Some 1) (Some 0) (Some 0) 2 2) (getIndices 2 2))
        = [Some 0, Some 4, Some 0, Some 0, Some 4, Some 0, Some 0, Some 4, Some 0]
    \<and> take 9 (normalBuffer (bufferData (Some 1) (Some 0) (Some 0) 2 2))
        = [Some 0, Some 1, Some 0, Some 0, Some 1, Some 0, Some 0, Some 1, Some 0]
    \<and> drop 18 (accumulated (getVertices (Some 1) (Some 0) (Some 0) 2 2) (getIndices 2 2))
        = [Some 0, Some (- 4), Some 0, Some 0, Some (- 4), Some 0, Some 0, Some (- 4), Some 0]
    \<and> drop 18 (normalBuffer (bufferData (Some 1) (Some 0) (Some 0) 2 2))
        = [Some 0, Some (- 1), Some 0, Some 0, Some (- 1), Some 0, Some 0, Some (- 1), Some 0]"
proof (intro conjI)
  show "int k \<in> set (getIndices su sv)" using assms(1-3) by (rule vertex_in_getIndices)
  show "getFacetWeightedNormals vertices indices = normalizeAll 0 (accumulated vertices indices)"
    by (simp only: getFacetWeightedNormals_def)
  have blk: "take 3 (drop (3 * m) (normalizeAll 0 normals)) = spec_normalized (Vec3 x y z)"
    using assms(4) by (rule block_normalizeAll)
  show "let l = sqrt (x * x + y * y + z * z);
            N = take 3 (drop (3 * m) (normalizeAll 0 normals))
        in if x = 0 \<and> y = 0 \<and> z = 0 then N = [None, None, None]
           else N = [Some (x / l), Some (y / l), Some (z / l)]
                \<and> sqrt ((x / l) * (x / l) + (y / l) * (y / l) + (z / l) * (z / l)) = 1"
  proof (cases "x = 0 \<and> y = 0 \<and> z = 0")
    case True
    then show ?thesis unfolding Let_def blk spec_normalized_cases by simp
  next
    case False
    then show ?thesis
      unfolding Let_def blk spec_normalized_cases
      using unit_after_division [OF False] by simp
  qed
  show "take 3 (drop (3 * k)
         (accumulated (getVertices (Some 0) (Some 0) (Some n) su sv) (getIndices su sv)))
        = [Some 0, Some 0, Some 0]"
    using assms(1-3) by (rule origin_mesh(1))
  show "take 3 (drop (3 * k) (normalBuffer (bufferData (Some 0) (Some 0) (Some n) su sv)))
        = [None, None, None]"
    using assms(1-3) by (rule origin_mesh(2))
  show "take 9 (accumulated (getVertices (Some 1) (Some 0) (Some 0) 2 2) (getIndices 2 2))
        = [Some 0, Some 4, Some 0, Some 0, Some 4, Some 0, Some 0, Some 4, Some 0]"
    by (rule unit_radius_mesh(1))
  show "take 9 (normalBuffer (bufferData (Some 1) (Some 0) (Some 0) 2 2))
        = [Some 0, Some 1, Some 0, Some 0, Some 1, Some 0, Some 0, Some 1, Some 0]"
    by (rule unit_radius_mesh(2))
  show "drop 18 (accumulated (getVertices (Some 1) (Some 0) (Some 0) 2 2) (getIndices 2 2))
        = [Some 0, Some (- 4), Some 0, Some 0, Some (- 4), Some 0, Some 0, Some (- 4), Some 0]"
    by (rule unit_radius_mesh(3))
  show "drop 18 (normalBuffer (bufferData (Some 1) (Some 0) (Some 0) 2 2))
        = [Some 0, Some (- 1), Some 0, Some 0, Some (- 1), Some 0, Some 0, Some (- 1), Some 0]"
    by (rule unit_radius_mesh(4))
qed

theorem unguarded_normalization_witness:
  "(1::int) \<le> 2 \<and> (0::nat) < nat ((2 + 1) * (2 + 1))
   \<and> take 3 (drop (3 * 0)
        (accumulated (getVertices (Some 1) (Some 0) (Some 0) 2 2) (getIndices 2 2)))
      = [Some 0, Some 4, Some 0]
   \<and> float32 0 \<and> float32 4
   \<and> int 0 \<in> set (getIndices 2 2)
   \<and> take 3 (drop (3 * 0) (normalizeAll 0
        (accumulated (getVertices (Some 1) (Some 0) (Some 0) 2 2) (getIndices 2 2))))
      = [Some 0, Some 1, Some 0]
   \<and> take 3 (drop (3 * 0) (normalBuffer (bufferData (Some 0) (Some 0) (Some 5) 2 2)))
      = [None, None, None]"
proof -
  let ?A = "accumulated (getVertices (Some 1) (Some 0) (Some 0) 2 2) (getIndices 2 2)"
  have h: "(1::int) \<le> 2" and k: "(0::nat) < nat ((2 + 1) * (2 + 1))" by simp_all
  have "take 3 (take 9 ?A) = [Some 0, Some 4, Some 0]"
    by (simp only: unit_radius_mesh(1)) simp
  then have b: "take 3 (drop (3 * 0) ?A) = [Some 0, Some 4, Some 0]" by simp
  have f0: "float32 0" and f4: "float32 4" by (simp_all add: float32_def)
  note t = unguarded_normalization [OF h h k b f0 f4 f0, of "[]" "[]" 5]
  have n: "take 3 (drop (3 * 0) (normalizeAll 0 ?A)) = [Some 0, Some 1, Some 0]"
    using t by (simp add: Let_def sqrt_16)
  have o: "take 3 (drop (3 * 0) (normalBuffer (bufferData (Some 0) (Some 0) (Some 5) 2 2)))
      = [None, None, None]"
    using t by blast
  have i: "int 0 \<in> set (getIndices 2 2)" using t by blast
  show ?thesis using h k b f0 f4 i n o by blast
qed

end
